theory Spec2Isabelle
  imports Complex_Main "HOL-Library.AList"
begin

section \<open>Data model of the WordSynth 3D visualisation\<close>

text \<open>
  The development embeds the class \<open>ThreeJSVisualization\<close>: the ingestion operations
  (\<open>updateVisualization\<close>, \<open>addWordsProgressively\<close>, \<open>addWordsProgressivelyAligned\<close>),
  the object lifecycle (\<open>createBaseWord\<close>, \<open>createOtherWord\<close>, \<open>createCurrentMixPoint\<close>,
  \<open>clearWordObjects\<close>, \<open>clearAllGlowSpheres\<close>, \<open>clearWordObjectsExcept\<close>) and the camera
  handlers (wheel, click, \<open>pointCameraAtWord\<close>, \<open>animateCameraTarget\<close>, \<open>onWindowResize\<close>).

  JavaScript numbers are modelled as real numbers, so every statement about coordinates
  and distances is about exact arithmetic; the one place where the special values of the
  number type decide the behaviour (a division by a zero height) uses \<open>js_number\<close>.
\<close>

record vec3 =
  vx :: real
  vy :: real
  vz :: real

definition vec :: "real \<Rightarrow> real \<Rightarrow> real \<Rightarrow> vec3" where
  "vec a b c = \<lparr>vx = a, vy = b, vz = c\<rparr>"

text \<open>\<open>Vector3.distanceTo\<close>: the Euclidean distance.\<close>

definition distanceTo :: "vec3 \<Rightarrow> vec3 \<Rightarrow> real" where
  "distanceTo a b = sqrt ((vx a - vx b)\<^sup>2 + (vy a - vy b)\<^sup>2 + (vz a - vz b)\<^sup>2)"

text \<open>\<open>Vector3.lerpVectors(v1, v2, alpha)\<close>.\<close>

definition lerpVectors :: "vec3 \<Rightarrow> vec3 \<Rightarrow> real \<Rightarrow> vec3" where
  "lerpVectors v1 v2 alpha =
     vec (vx v1 + (vx v2 - vx v1) * alpha)
         (vy v1 + (vy v2 - vy v1) * alpha)
         (vz v1 + (vz v2 - vz v1) * alpha)"

text \<open>A point record of a batch: \<open>{word, x, y, z, is_base, is_mix, is_neighbor}\<close>.\<close>

record point =
  word :: string
  px :: real
  py :: real
  pz :: real
  is_base :: bool
  is_mix :: bool
  is_neighbor :: bool

definition coords :: "point \<Rightarrow> vec3" where
  "coords p = vec (px p) (py p) (pz p)"

text \<open>The argument \<open>data\<close> of the ingestion operations: it may be missing, and so may its
  field \<open>points\<close>.\<close>

record batch =
  points :: "point list option"
  word_count :: nat
  is_complete :: bool

text \<open>
  Scene objects. A mesh has a geometry and a material; lights and the three corner grids
  (groups of \<open>Line\<close> objects, which are not meshes) have \<open>isMesh = False\<close>. The size kept
  with a geometry is the sphere radius, the cube edge or the plane width. The texture of
  a label is the text drawn on its canvas, with the fill colour.
\<close>

datatype geometry = SphereGeometry real | BoxGeometry real | PlaneGeometry real

record material =
  color :: nat
  transparent :: bool
  opacity :: real
  backSide :: bool
  texture :: "(string \<times> nat) option"

record object3d =
  isMesh :: bool
  geometry :: "geometry option"
  mat :: "material option"
  position :: vec3
  scale :: vec3
  renderOrder :: int
  isTextMesh :: bool

text \<open>The value stored under \<open>glow\<close> in a map entry: the pair \<open>{inner, outer}\<close> of a
  neighbour, or the single glow cube of the mix marker. \<open>None\<close> is \<open>null\<close> or a missing key.\<close>

datatype glow_handle = GlowPair nat nat | GlowSingle nat

record word_entry =
  e_sphere :: nat
  e_text :: nat
  e_point :: point
  e_glow :: "glow_handle option"

text \<open>The result of a JavaScript division of two container dimensions.\<close>

datatype js_number = Finite real | PosInfinity | NaN

text \<open>
  The state of a \<open>ThreeJSVisualization\<close>. Three.js objects are mutable and shared between
  the scene and the map \<open>wordObjects\<close>, so they live in a store \<open>objects\<close> addressed by
  handles; \<open>scene\<close> is the list of the scene's children, \<open>wordObjects\<close> keeps the insertion
  order of the JavaScript \<open>Map\<close>. The camera position, the orbit target of the controls
  and the fields that track the camera are grouped in \<open>cam\<close>; \<open>clickHandler\<close> says whether
  a click handler is registered.
\<close>

record camera_state =
  cameraTranslated :: bool
  camera_position :: vec3
  controls_target :: vec3
  initialCameraPosition :: vec3
  initialCameraTarget :: vec3
  camera_fov :: real
  camera_aspect :: js_number

record viz =
  objects :: "nat \<Rightarrow> object3d"
  next_id :: nat
  scene :: "nat list"
  wordObjects :: "(string \<times> word_entry) list"
  currentBaseWord :: "string option"
  currentMixPoint :: "point option"
  clickHandler :: bool
  renderer_size :: "nat \<times> nat"
  cam :: camera_state

section \<open>Scene and store primitives\<close>

text \<open>\<open>new THREE.Mesh(...)\<close>: the object is stored under the next free handle, so the
  handle of an object constructed in state \<open>s\<close> is \<open>next_id s\<close>.\<close>

definition new_object :: "object3d \<Rightarrow> viz \<Rightarrow> viz" where
  "new_object ob s = s\<lparr>objects := (objects s)(next_id s := ob), next_id := Suc (next_id s)\<rparr>"

text \<open>\<open>scene.add\<close> of a freshly constructed object appends it to the children;
  \<open>scene.remove\<close> splices out the child if it is one. \<open>has\<close> is \<open>wordObjects.has\<close>.\<close>

definition scene_add :: "nat \<Rightarrow> viz \<Rightarrow> viz" where
  "scene_add i s = s\<lparr>scene := scene s @ [i]\<rparr>"

definition scene_remove :: "nat \<Rightarrow> viz \<Rightarrow> viz" where
  "scene_remove i s = s\<lparr>scene := remove1 i (scene s)\<rparr>"

definition has :: "viz \<Rightarrow> string \<Rightarrow> bool" where
  "has s w = (map_of (wordObjects s) w \<noteq> None)"

text \<open>
  \<open>controls.update()\<close> belongs to the three.js \<open>OrbitControls\<close>, which is not part of the
  repository: it is a parameter \<open>upd\<close> of the model, acting on the camera position and the
  orbit target, the two values it can write.
\<close>

type_synonym controls = "vec3 \<times> vec3 \<Rightarrow> vec3 \<times> vec3"

definition controls_update :: "controls \<Rightarrow> camera_state \<Rightarrow> camera_state" where
  "controls_update upd c =
     (let r = upd (camera_position c, controls_target c)
      in c\<lparr>camera_position := fst r, controls_target := snd r\<rparr>)"

section \<open>Creating meshes\<close>

text \<open>The three constructors return the new mesh; the caller's \<open>new_object\<close> stores it.\<close>

definition createTextMesh :: "string \<Rightarrow> vec3 \<Rightarrow> nat \<Rightarrow> real \<Rightarrow> real \<Rightarrow> object3d" where
  "createTextMesh txt pos col sz opac =
     \<lparr>isMesh = True, geometry = Some (PlaneGeometry sz),
      mat = Some \<lparr>color = 0xffffff, transparent = True, opacity = opac,
                  backSide = False, texture = Some (txt, col)\<rparr>,
      position = pos, scale = vec 1 1 1, renderOrder = 0, isTextMesh = True\<rparr>"

definition createWordSphere :: "vec3 \<Rightarrow> nat \<Rightarrow> real \<Rightarrow> object3d" where
  "createWordSphere pos col sz =
     \<lparr>isMesh = True, geometry = Some (SphereGeometry sz),
      mat = Some \<lparr>color = col, transparent = True, opacity = 8 / 10,
                  backSide = False, texture = None\<rparr>,
      position = pos, scale = vec 1 1 1, renderOrder = 0, isTextMesh = False\<rparr>"

definition createGlowSphere :: "vec3 \<Rightarrow> nat \<Rightarrow> real \<Rightarrow> object3d" where
  "createGlowSphere pos col sz =
     \<lparr>isMesh = True, geometry = Some (SphereGeometry sz),
      mat = Some \<lparr>color = col, transparent = True, opacity = 4 / 10,
                  backSide = True, texture = None\<rparr>,
      position = pos, scale = vec 1 1 1, renderOrder = 0, isTextMesh = False\<rparr>"

definition set_renderOrder :: "nat \<Rightarrow> int \<Rightarrow> viz \<Rightarrow> viz" where
  "set_renderOrder i n s = s\<lparr>objects := (objects s)(i := (objects s i)\<lparr>renderOrder := n\<rparr>)\<rparr>"

definition set_opacity :: "nat \<Rightarrow> real \<Rightarrow> viz \<Rightarrow> viz" where
  "set_opacity i v s =
     s\<lparr>objects := (objects s)(i := (objects s i)\<lparr>mat := map_option (\<lambda>m. m\<lparr>opacity := v\<rparr>) (mat (objects s i))\<rparr>)\<rparr>"

section \<open>The glow sweep\<close>

text \<open>
  The test of \<open>clearAllGlowSpheres\<close> on one traversed object. The traversal is taken over
  the children of the scene: the only deeper objects are the lines inside the three grid
  groups, which are no meshes and fail the test, and \<open>scene.remove\<close> acts on children only.
\<close>

definition is_glow :: "object3d \<Rightarrow> bool" where
  "is_glow ob =
     (isMesh ob \<and>
      (case mat ob of None \<Rightarrow> False | Some m \<Rightarrow>
         transparent m \<and> opacity m < 1 \<and>
         (case geometry ob of None \<Rightarrow> False
          | Some g \<Rightarrow> (case g of SphereGeometry r \<Rightarrow> True | BoxGeometry r \<Rightarrow> True
                       | PlaneGeometry r \<Rightarrow> False) \<and> opacity m \<le> 1 / 2)))"

definition clearAllGlowSpheres :: "viz \<Rightarrow> viz" where
  "clearAllGlowSpheres s =
     (let objectsToRemove = filter (\<lambda>i. is_glow (objects s i)) (scene s)
      in fold scene_remove objectsToRemove s)"

text \<open>The highlight signature as the specification words it, and the scan for it.\<close>

definition highlight_signature :: "object3d \<Rightarrow> bool" where
  "highlight_signature ob =
     (isMesh ob \<and>
      (case mat ob of None \<Rightarrow> False | Some m \<Rightarrow> transparent m \<and> opacity m \<le> 1 / 2) \<and>
      (case geometry ob of None \<Rightarrow> False | Some g \<Rightarrow>
         (case g of SphereGeometry r \<Rightarrow> True | BoxGeometry r \<Rightarrow> True | PlaneGeometry r \<Rightarrow> False)))"

definition scan_highlights :: "viz \<Rightarrow> nat list" where
  "scan_highlights s = filter (\<lambda>i. highlight_signature (objects s i)) (scene s)"

section \<open>Object lifecycle\<close>

definition createBaseWord :: "point \<Rightarrow> viz \<Rightarrow> viz" where
  "createBaseWord p s =
     (let pos = vec (px p) (py p) (pz p);
          sphere = next_id s;
          s1 = new_object (createWordSphere pos 0xff0000 (4 / 100)) s;
          s2 = scene_add sphere s1;
          textMesh = next_id s2;
          s3 = new_object (createTextMesh (word p) (vec (vx pos) (vy pos) (vz pos)) 0xff0000 (6 / 10) 1) s2;
          s4 = set_renderOrder textMesh 1 s3;
          s5 = scene_add textMesh s4;
          s6 = s5\<lparr>wordObjects := AList.update (word p)
                      \<lparr>e_sphere = sphere, e_text = textMesh, e_point = p, e_glow = None\<rparr>
                      (wordObjects s5),
                  currentBaseWord := Some (word p)\<rparr>
      in clearAllGlowSpheres s6)"

definition createOtherWord :: "point \<Rightarrow> viz \<Rightarrow> viz" where
  "createOtherWord p s =
     (let pos = vec (px p) (py p) (pz p);
          sphereColor = (if is_neighbor p then 0x8B0000 else 0x0066ff);
          sphereSize = (if is_neighbor p then 5 / 100 else 3 / 100);
          sphere = next_id s;
          s1 = new_object (createWordSphere pos sphereColor sphereSize) s;
          s2 = scene_add sphere s1;
          (glowSphere, s3) =
             (if is_neighbor p then
                (let innerGlow = next_id s2;
                     t1 = new_object (createGlowSphere pos 0xff0000 (12 / 100)) s2;
                     t2 = scene_add innerGlow t1;
                     outerGlow = next_id t2;
                     t3 = new_object (createGlowSphere pos 0xff4444 (18 / 100)) t2;
                     t4 = set_opacity outerGlow (15 / 100) t3;
                     t5 = scene_add outerGlow t4
                 in (Some (GlowPair innerGlow outerGlow), t5))
              else (None, s2));
          distanceFromCamera = distanceTo (camera_position (cam s3)) pos;
          maxDistance = 10;
          fadeFactor = max (3 / 10) (1 - distanceFromCamera / maxDistance);
          textMesh = next_id s3;
          s4 = new_object (createTextMesh (word p) (vec (vx pos) (vy pos) (vz pos)) 0xffffff (5 / 10) fadeFactor) s3;
          s5 = set_renderOrder textMesh 1 s4;
          s6 = scene_add textMesh s5
      in s6\<lparr>wordObjects := AList.update (word p)
                \<lparr>e_sphere = sphere, e_text = textMesh, e_point = p, e_glow = glowSphere\<rparr>
                (wordObjects s6)\<rparr>)"

text \<open>The label of the mix marker starts with U+1F3AF, given here by its UTF-8 bytes.\<close>

definition mix_label :: string where
  "mix_label = [CHR 0xF0, CHR 0x9F, CHR 0x8E, CHR 0xAF] @ '' CURRENT MIX''"

definition createCurrentMixPoint :: "point \<Rightarrow> viz \<Rightarrow> viz" where
  "createCurrentMixPoint p s =
     (let pos = vec (px p) (py p) (pz p);
          cube = next_id s;
          s1 = new_object
             \<lparr>isMesh = True, geometry = Some (BoxGeometry (15 / 100)),
              mat = Some \<lparr>color = 0xFF00FF, transparent = True, opacity = 9 / 10,
                          backSide = False, texture = None\<rparr>,
              position = pos, scale = vec 1 1 1, renderOrder = 0, isTextMesh = False\<rparr> s;
          s2 = scene_add cube s1;
          glowCube = next_id s2;
          s3 = new_object
             \<lparr>isMesh = True, geometry = Some (BoxGeometry (25 / 100)),
              mat = Some \<lparr>color = 0xFF00FF, transparent = True, opacity = 3 / 10,
                          backSide = True, texture = None\<rparr>,
              position = pos, scale = vec 1 1 1, renderOrder = 0, isTextMesh = False\<rparr> s2;
          s4 = scene_add glowCube s3;
          textMesh = next_id s4;
          s5 = new_object (createTextMesh mix_label (vec (vx pos) (vy pos + 2 / 10) (vz pos)) 0xFF00FF (8 / 10) 1) s4;
          s6 = set_renderOrder textMesh 1 s5;
          s7 = scene_add textMesh s6
      in s7\<lparr>wordObjects := AList.update ''current_mix''
                \<lparr>e_sphere = cube, e_text = textMesh, e_point = p, e_glow = Some (GlowSingle glowCube)\<rparr>
                (wordObjects s7),
            currentMixPoint := Some p\<rparr>)"

text \<open>The removal of one entry's objects, shared by the two clearing operations.\<close>

definition remove_glow :: "glow_handle option \<Rightarrow> viz \<Rightarrow> viz" where
  "remove_glow g s =
     (case g of None \<Rightarrow> s
      | Some (GlowPair gi go) \<Rightarrow> scene_remove go (scene_remove gi s)
      | Some (GlowSingle g1) \<Rightarrow> scene_remove g1 s)"

definition remove_entry :: "word_entry \<Rightarrow> viz \<Rightarrow> viz" where
  "remove_entry e s = remove_glow (e_glow e) (scene_remove (e_text e) (scene_remove (e_sphere e) s))"

definition clearWordObjects :: "viz \<Rightarrow> viz" where
  "clearWordObjects s =
     (let s1 = fold (\<lambda>kv. remove_entry (snd kv)) (wordObjects s) s;
          s2 = s1\<lparr>wordObjects := [], currentBaseWord := None, currentMixPoint := None\<rparr>
      in clearAllGlowSpheres s2)"

text \<open>\<open>clearWordObjectsExcept\<close> in its three parts: the loop that removes every entry but
  the kept word and the mix marker, with the deletion from the map; the sweep when the base
  word changes; and the block that turns the kept word into the base word.\<close>

definition remove_others :: "string \<Rightarrow> viz \<Rightarrow> viz" where
  "remove_others keepWord s =
     (let doomed = filter (\<lambda>kv. fst kv \<noteq> keepWord \<and> fst kv \<noteq> ''current_mix'') (wordObjects s);
          s1 = fold (\<lambda>kv. remove_entry (snd kv)) doomed s;
          wordsToRemove = map fst doomed
      in s1\<lparr>wordObjects := fold AList.delete wordsToRemove (wordObjects s1)\<rparr>)"

definition restyle_kept :: "string \<Rightarrow> viz \<Rightarrow> viz" where
  "restyle_kept keepWord s3 =
     (case map_of (wordObjects s3) keepWord of
        None \<Rightarrow> s3
      | Some e \<Rightarrow>
         (let sphere = e_sphere e;
              s4 = (if mat (objects s3 sphere) \<noteq> None
                    then s3\<lparr>objects := (objects s3)(sphere := (objects s3 sphere)
                             \<lparr>mat := map_option (\<lambda>m. m\<lparr>color := 0xff0000\<rparr>) (mat (objects s3 sphere)),
                              scale := vec ((4 / 100) / (3 / 100)) ((4 / 100) / (3 / 100)) ((4 / 100) / (3 / 100))\<rparr>)\<rparr>
                    else s3);
              s5 = remove_glow (e_glow e) s4;
              s6 = (if mat (objects s5 (e_text e)) \<noteq> None then
                      (let newTextMesh = next_id s5;
                           t1 = new_object (createTextMesh keepWord
                               (vec (px (e_point e)) (py (e_point e)) (pz (e_point e))) 0xff0000 (6 / 10) 1) s5;
                           t2 = set_renderOrder newTextMesh 1 t1;
                           t3 = scene_remove (e_text e) t2;
                           t4 = scene_add newTextMesh t3
                       in t4\<lparr>wordObjects := AList.update keepWord
                                \<lparr>e_sphere = sphere, e_text = newTextMesh, e_point = e_point e, e_glow = None\<rparr>
                                (wordObjects t4)\<rparr>)
                    else s5);
              s7 = s6\<lparr>currentBaseWord := Some keepWord\<rparr>
          in clearAllGlowSpheres s7))"

definition clearWordObjectsExcept :: "string \<Rightarrow> viz \<Rightarrow> viz" where
  "clearWordObjectsExcept keepWord s =
     (let s2 = remove_others keepWord s;
          s3 = (if keepWord \<noteq> [] \<and> Some keepWord \<noteq> currentBaseWord s2
                then clearAllGlowSpheres s2 else s2)
      in if keepWord \<noteq> [] \<and> has s3 keepWord then restyle_kept keepWord s3 else s3)"

section \<open>Camera positioning\<close>

text \<open>\<open>Box3.expandByPoint\<close> over a non-empty list of points: the componentwise extremes.\<close>

definition box_min :: "(point \<Rightarrow> real) \<Rightarrow> point list \<Rightarrow> real" where
  "box_min f pts = fold (\<lambda>p m. min m (f p)) (tl pts) (f (hd pts))"

definition box_max :: "(point \<Rightarrow> real) \<Rightarrow> point list \<Rightarrow> real" where
  "box_max f pts = fold (\<lambda>p m. max m (f p)) (tl pts) (f (hd pts))"

definition fitCameraToPoints :: "controls \<Rightarrow> point list \<Rightarrow> viz \<Rightarrow> viz" where
  "fitCameraToPoints upd pts s =
     (if pts = [] then s
      else
        (let center = vec ((box_min px pts + box_max px pts) / 2)
                          ((box_min py pts + box_max py pts) / 2)
                          ((box_min pz pts + box_max pz pts) / 2);
             maxDim = max (max (box_max px pts - box_min px pts) (box_max py pts - box_min py pts))
                          (box_max pz pts - box_min pz pts);
             fov = camera_fov (cam s) * (pi / 180);
             cameraDistance = \<bar>maxDim / sin (fov / 2)\<bar> * (8 / 10);
             c1 = (cam s)\<lparr>camera_position := vec (vx center + cameraDistance) (vy center + cameraDistance)
                                                 (vz center + cameraDistance)\<rparr>;
             c2 = c1\<lparr>controls_target := center\<rparr>;
             c3 = c2\<lparr>initialCameraPosition := camera_position c2,
                     initialCameraTarget := controls_target c2\<rparr>
         in s\<lparr>cam := controls_update upd c3\<rparr>))"

definition centerOnBaseWord :: "controls \<Rightarrow> point \<Rightarrow> viz \<Rightarrow> viz" where
  "centerOnBaseWord upd baseWordPoint s =
     (let basePosition = vec (px baseWordPoint) (py baseWordPoint) (pz baseWordPoint);
          c1 = (cam s)\<lparr>controls_target := basePosition\<rparr>;
          cameraDistance = 3;
          c2 = c1\<lparr>camera_position := vec (vx basePosition + cameraDistance)
                                         (vy basePosition + cameraDistance)
                                         (vz basePosition + cameraDistance)\<rparr>;
          c3 = c2\<lparr>initialCameraPosition := camera_position c2,
                  initialCameraTarget := controls_target c2\<rparr>
      in s\<lparr>cam := controls_update upd c3\<rparr>)"

section \<open>Ingestion\<close>

definition otherWords_of :: "point list \<Rightarrow> point list" where
  "otherWords_of pts = filter (\<lambda>p. \<not> is_base p \<and> \<not> is_mix p) pts"

text \<open>The body of \<open>updateVisualization\<close> after its guard.\<close>

definition replace_points :: "controls \<Rightarrow> point list \<Rightarrow> viz \<Rightarrow> viz" where
  "replace_points upd pts s =
     (let baseWordPoint = find is_base pts;
          otherWords = otherWords_of pts;
          currentMixPoint = find is_mix pts;
          s1 = (case baseWordPoint of None \<Rightarrow> s | Some b \<Rightarrow> createBaseWord b s);
          s2 = fold createOtherWord otherWords s1;
          s3 = (case currentMixPoint of None \<Rightarrow> s2 | Some m \<Rightarrow> createCurrentMixPoint m s2)
      in fitCameraToPoints upd pts s3)"

definition updateVisualization :: "controls \<Rightarrow> batch option \<Rightarrow> viz \<Rightarrow> viz" where
  "updateVisualization upd data s =
     (let s0 = clearWordObjects s
      in case data of None \<Rightarrow> s0
         | Some d \<Rightarrow> (case points d of None \<Rightarrow> s0
                      | Some pts \<Rightarrow> if pts = [] then s0 else replace_points upd pts s0))"

text \<open>The body of \<open>addWordsProgressively\<close> after its guard.\<close>

definition append_points :: "controls \<Rightarrow> point list \<Rightarrow> viz \<Rightarrow> viz" where
  "append_points upd pts s =
     (let baseWordPoint = find is_base pts;
          otherWords = otherWords_of pts;
          currentMixPoint = find is_mix pts;
          s1 = (case baseWordPoint of None \<Rightarrow> s
                | Some b \<Rightarrow> if \<not> has s (word b)
                            then centerOnBaseWord upd b (createBaseWord b s) else s);
          s2 = fold (\<lambda>p t. if \<not> has t (word p) then createOtherWord p t else t) otherWords s1
      in case currentMixPoint of None \<Rightarrow> s2
         | Some m \<Rightarrow> if \<not> has s2 ''current_mix'' then createCurrentMixPoint m s2 else s2)"

definition addWordsProgressively :: "controls \<Rightarrow> batch option \<Rightarrow> viz \<Rightarrow> viz" where
  "addWordsProgressively upd data s =
     (case data of None \<Rightarrow> s
      | Some d \<Rightarrow> (case points d of None \<Rightarrow> s
                   | Some pts \<Rightarrow> if pts = [] then s else append_points upd pts s))"

text \<open>The centre, the largest distance to it and the scale factor of the aligned append.\<close>

definition centroid :: "point list \<Rightarrow> vec3" where
  "centroid otherWords =
     (let centerX = fold (\<lambda>p c. c + px p) otherWords 0;
          centerY = fold (\<lambda>p c. c + py p) otherWords 0;
          centerZ = fold (\<lambda>p c. c + pz p) otherWords 0;
          count = length otherWords
      in if count > 0 then vec (centerX / real count) (centerY / real count) (centerZ / real count)
         else vec centerX centerY centerZ)"

definition maxDistance_of :: "point list \<Rightarrow> vec3 \<Rightarrow> real" where
  "maxDistance_of otherWords c =
     fold (\<lambda>p m. max m (sqrt ((px p - vx c)\<^sup>2 + (py p - vy c)\<^sup>2 + (pz p - vz c)\<^sup>2))) otherWords 0"

definition scaleFactor_of :: "real \<Rightarrow> real" where
  "scaleFactor_of maxDistance = (if maxDistance > 0 then 4 / maxDistance else 1)"

text \<open>The aligned copy \<open>{...point, x: scaledX, y: scaledY, z: scaledZ}\<close> of a point.\<close>

definition aligned :: "vec3 \<Rightarrow> real \<Rightarrow> point \<Rightarrow> point \<Rightarrow> point" where
  "aligned c scaleFactor existingPosition p =
     p\<lparr>px := (px p - vx c) * scaleFactor + px existingPosition,
       py := (py p - vy c) * scaleFactor + py existingPosition,
       pz := (pz p - vz c) * scaleFactor + pz existingPosition\<rparr>"

text \<open>The body of \<open>addWordsProgressivelyAligned\<close> once the existing anchor entry is found.\<close>

definition align_points :: "point list \<Rightarrow> word_entry \<Rightarrow> viz \<Rightarrow> viz" where
  "align_points pts existingBaseWordObj s =
     (let baseWordPoint = find is_base pts;
          otherWords = otherWords_of pts;
          currentMixPoint = find is_mix pts;
          existingPosition = e_point existingBaseWordObj;
          c = centroid otherWords;
          maxDistance = maxDistance_of otherWords c;
          scaleFactor = scaleFactor_of maxDistance;
          s1 = (case baseWordPoint of None \<Rightarrow> s
                | Some b \<Rightarrow> if \<not> has s (word b)
                            then createBaseWord (b\<lparr>px := px existingPosition, py := py existingPosition,
                                                   pz := pz existingPosition\<rparr>) s
                            else s);
          s2 = fold (\<lambda>p t. if \<not> has t (word p)
                            then createOtherWord (aligned c scaleFactor existingPosition p) t else t)
                    otherWords s1
      in case currentMixPoint of None \<Rightarrow> s2
         | Some m \<Rightarrow> if \<not> has s2 ''current_mix''
                     then createCurrentMixPoint (aligned c scaleFactor existingPosition m) s2 else s2)"

definition addWordsProgressivelyAligned :: "controls \<Rightarrow> batch option \<Rightarrow> string \<Rightarrow> viz \<Rightarrow> viz" where
  "addWordsProgressivelyAligned upd data existingBaseWord s =
     (case data of None \<Rightarrow> s
      | Some d \<Rightarrow>
         (case points d of None \<Rightarrow> s
          | Some pts \<Rightarrow>
             if pts = [] then s
             else (case map_of (wordObjects s) existingBaseWord of
                     None \<Rightarrow> addWordsProgressively upd data s
                   | Some existingBaseWordObj \<Rightarrow> align_points pts existingBaseWordObj s)))"

section \<open>Camera input\<close>

text \<open>A wheel event, with the camera's world direction at the time of the event (given
  by the renderer library from the camera's orientation). The handlers of this section
  read and write the camera fields only and are functions on \<open>camera_state\<close>.\<close>

record wheel_event =
  direction :: vec3
  deltaY :: real

text \<open>The prospective position \<open>newPosition\<close> of the wheel handler.\<close>

definition wheel_newPosition :: "wheel_event \<Rightarrow> camera_state \<Rightarrow> vec3" where
  "wheel_newPosition ev c =
     (let moveSpeed = 25 / 1000;
          delta = (if deltaY ev > 0 then moveSpeed else - moveSpeed);
          movement = vec (vx (direction ev) * delta) (vy (direction ev) * delta) (vz (direction ev) * delta)
      in vec (vx (camera_position c) + vx movement) (vy (camera_position c) + vy movement)
             (vz (camera_position c) + vz movement))"

definition onWheel :: "controls \<Rightarrow> wheel_event \<Rightarrow> camera_state \<Rightarrow> camera_state" where
  "onWheel upd ev c =
     (let newPosition = wheel_newPosition ev c
      in if \<not> cameraTranslated c then
           (let currentDistance = distanceTo (camera_position c) (controls_target c);
                newDistance = distanceTo newPosition (controls_target c);
                minDistance = 2 / 10;
                isMovingAway = newDistance > currentDistance;
                wouldStayAboveMin = newDistance \<ge> minDistance
            in if isMovingAway \<or> wouldStayAboveMin
               then controls_update upd (c\<lparr>camera_position := newPosition\<rparr>)
               else c)
         else controls_update upd (c\<lparr>camera_position := newPosition\<rparr>))"

text \<open>A sequence of wheel ticks.\<close>

definition wheel_ticks :: "controls \<Rightarrow> wheel_event list \<Rightarrow> camera_state \<Rightarrow> camera_state" where
  "wheel_ticks upd evs c = fold (onWheel upd) evs c"

text \<open>The key handler of \<open>setupCameraTranslationTracking\<close>; the argument says whether the
  event is one of the command or control key.\<close>

definition handleKeyDown :: "bool \<Rightarrow> camera_state \<Rightarrow> camera_state" where
  "handleKeyDown commandKey c = (if commandKey then c\<lparr>cameraTranslated := True\<rparr> else c)"

text \<open>
  \<open>animateCameraTarget\<close>. The clock is a parameter: the list gives the value of
  \<open>Date.now() - startTime\<close> at each successive call of the inner function \<open>animate\<close>, the
  first of which is made by \<open>animateCameraTarget\<close> itself. The result is the list of the
  states after each call; no further call is requested once \<open>progress\<close> has reached 1.
\<close>

definition easeProgress_of :: "real \<Rightarrow> real" where
  "easeProgress_of progress =
     (if progress < 1 / 2 then 2 * progress * progress else 1 - (- 2 * progress + 2) ^ 3 / 2)"

fun animate_calls :: "controls \<Rightarrow> vec3 \<Rightarrow> vec3 \<Rightarrow> real list \<Rightarrow> camera_state \<Rightarrow> camera_state list" where
  "animate_calls upd startTarget endTarget [] c = []"
| "animate_calls upd startTarget endTarget (elapsed # rest) c =
     (let duration = 600;
          progress = min (elapsed / duration) 1;
          c1 = c\<lparr>controls_target := lerpVectors startTarget endTarget (easeProgress_of progress)\<rparr>;
          c2 = controls_update upd c1
      in c2 # (if progress < 1 then animate_calls upd startTarget endTarget rest c2 else []))"

definition animateCameraTarget ::
    "controls \<Rightarrow> vec3 \<Rightarrow> real \<Rightarrow> real list \<Rightarrow> camera_state \<Rightarrow> camera_state list" where
  "animateCameraTarget upd targetPosition elapsed0 rest c =
     animate_calls upd (controls_target c) targetPosition (elapsed0 # rest) c"

text \<open>\<open>pointCameraAtWord\<close> and the click handlers write the camera fields only: their
  result is the list of camera states after each call of \<open>animate\<close>, empty when they return
  without starting an animation.\<close>

definition pointCameraAtWord ::
    "controls \<Rightarrow> real \<Rightarrow> real list \<Rightarrow> string \<Rightarrow> viz \<Rightarrow> camera_state list" where
  "pointCameraAtWord upd elapsed0 rest w s =
     (case map_of (wordObjects s) w of None \<Rightarrow> []
      | Some wordData \<Rightarrow>
         (let targetPosition = vec (px (e_point wordData)) (py (e_point wordData)) (pz (e_point wordData));
              c1 = (cam s)\<lparr>cameraTranslated := False\<rparr>;
              c2 = c1\<lparr>initialCameraPosition := camera_position c1\<rparr>;
              c3 = c2\<lparr>initialCameraTarget := targetPosition\<rparr>
          in animateCameraTarget upd targetPosition elapsed0 rest c3))"

definition findWordBySphere :: "nat \<Rightarrow> viz \<Rightarrow> string option" where
  "findWordBySphere sphere s =
     map_option fst (find (\<lambda>kv. e_sphere (snd kv) = sphere) (wordObjects s))"

text \<open>The click handlers; \<open>hit\<close> is the object of the first ray-cast intersection, if any.
  An empty word is falsy in the tests \<open>if (word)\<close>. The registered click handler is code of
  the application and is not run here.\<close>

definition handleSingleClick ::
    "controls \<Rightarrow> nat option \<Rightarrow> real \<Rightarrow> real list \<Rightarrow> viz \<Rightarrow> camera_state list" where
  "handleSingleClick upd hit elapsed0 rest s =
     (case hit of None \<Rightarrow> []
      | Some clickedObject \<Rightarrow>
         (case findWordBySphere clickedObject s of None \<Rightarrow> []
          | Some w \<Rightarrow> if w \<noteq> [] then pointCameraAtWord upd elapsed0 rest w s else []))"

definition handleDoubleClick ::
    "controls \<Rightarrow> nat option \<Rightarrow> real \<Rightarrow> real list \<Rightarrow> viz \<Rightarrow> camera_state list" where
  "handleDoubleClick upd hit elapsed0 rest s =
     (case hit of None \<Rightarrow> []
      | Some clickedObject \<Rightarrow>
         (case findWordBySphere clickedObject s of None \<Rightarrow> []
          | Some w \<Rightarrow>
             if w \<noteq> [] \<and> clickHandler s then
               (let c1 = (cam s)\<lparr>cameraTranslated := False\<rparr>;
                    c2 = c1\<lparr>initialCameraPosition := camera_position c1\<rparr>;
                    c3 = c2\<lparr>initialCameraTarget := position (objects s clickedObject)\<rparr>
                in pointCameraAtWord upd elapsed0 rest w (s\<lparr>cam := c3\<rparr>))
             else []))"

section \<open>Resize\<close>

text \<open>\<open>width / height\<close> for two container dimensions, which are non-negative integers.\<close>

definition js_div :: "nat \<Rightarrow> nat \<Rightarrow> js_number" where
  "js_div w h = (if h = 0 then (if w = 0 then NaN else PosInfinity) else Finite (real w / real h))"

text \<open>\<open>onWindowResize\<close>, given the container's \<open>clientWidth\<close> and \<open>clientHeight\<close>.\<close>

definition onWindowResize :: "nat \<Rightarrow> nat \<Rightarrow> viz \<Rightarrow> viz" where
  "onWindowResize width height s =
     s\<lparr>cam := (cam s)\<lparr>camera_aspect := js_div width height\<rparr>, renderer_size := (width, height)\<rparr>"

text \<open>The guard of the ingestion operations:
  \<open>!data || !data.points || data.points.length === 0\<close>.\<close>

definition missing_or_empty :: "batch option \<Rightarrow> bool" where
  "missing_or_empty data =
     (case data of None \<Rightarrow> True
      | Some d \<Rightarrow> (case points d of None \<Rightarrow> True | Some pts \<Rightarrow> pts = []))"

section \<open>The initial state\<close>

text \<open>\<open>initialize\<close> in a container of the given size: the scene holds three lights and the
  three corner grids, none of them a mesh; the camera is at (3, 3, 3) and the orbit target
  at the origin.\<close>

definition plain_object :: "vec3 \<Rightarrow> object3d" where
  "plain_object pos =
     \<lparr>isMesh = False, geometry = None, mat = None, position = pos, scale = vec 1 1 1,
      renderOrder = 0, isTextMesh = False\<rparr>"

definition initialize :: "nat \<Rightarrow> nat \<Rightarrow> viz" where
  "initialize width height =
     \<lparr>objects = (\<lambda>i. if i = 1 then plain_object (vec 10 10 5)
                      else if i = 2 then plain_object (vec (- 10) 10 (- 10))
                      else if i = 3 \<or> i = 4 then plain_object (vec (- 6) (- 6) (- 6))
                      else if i = 5 then plain_object (vec 6 (- 6) (- 6))
                      else plain_object (vec 0 0 0)),
      next_id = 6,
      scene = [0, 1, 2, 3, 4, 5],
      wordObjects = [],
      currentBaseWord = None,
      currentMixPoint = None,
      clickHandler = False,
      renderer_size = (width, height),
      cam = \<lparr>cameraTranslated = False,
             camera_position = vec 3 3 3,
             controls_target = vec 0 0 0,
             initialCameraPosition = vec 3 3 3,
             initialCameraTarget = vec 0 0 0,
             camera_fov = 75,
             camera_aspect = js_div width height\<rparr>\<rparr>"

section \<open>Notions used in the proofs\<close>

text \<open>The handles stored in a map entry, in the order in which the clearing loops remove
  them from the scene, and its glow handles alone.\<close>

definition entry_handles :: "word_entry \<Rightarrow> nat list" where
  "entry_handles e = [e_sphere e, e_text e] @
     (case e_glow e of None \<Rightarrow> [] | Some (GlowPair gi go) \<Rightarrow> [gi, go] | Some (GlowSingle g1) \<Rightarrow> [g1])"

definition glow_handles :: "word_entry \<Rightarrow> nat list" where
  "glow_handles e =
     (case e_glow e of None \<Rightarrow> [] | Some (GlowPair gi go) \<Rightarrow> [gi, go] | Some (GlowSingle g1) \<Rightarrow> [g1])"

text \<open>Well-formedness of a state: map keys and scene children are distinct, handles are
  allocated, every entry's body and label are in the scene and do not match the glow test,
  its glow objects match it, and entries under different keys share no handle.\<close>

definition wf_scene :: "viz \<Rightarrow> bool" where
  "wf_scene s \<longleftrightarrow>
     distinct (map fst (wordObjects s))
   \<and> distinct (scene s)
   \<and> (\<forall>i \<in> set (scene s). i < next_id s)
   \<and> (\<forall>k e. map_of (wordObjects s) k = Some e \<longrightarrow>
         distinct (entry_handles e)
       \<and> (\<forall>i \<in> set (entry_handles e). i < next_id s)
       \<and> e_sphere e \<in> set (scene s) \<and> e_text e \<in> set (scene s)
       \<and> \<not> is_glow (objects s (e_sphere e)) \<and> \<not> is_glow (objects s (e_text e))
       \<and> (\<forall>g \<in> set (glow_handles e). is_glow (objects s g)))
   \<and> (\<forall>k1 e1 k2 e2. map_of (wordObjects s) k1 = Some e1 \<and> map_of (wordObjects s) k2 = Some e2
          \<and> k1 \<noteq> k2 \<longrightarrow> set (entry_handles e1) \<inter> set (entry_handles e2) = {})"

text \<open>The relation between a state and a later one that the creators maintain: handles only
  increase, objects that existed are as they were, entries that existed are kept, and
  every new entry satisfies \<open>Q\<close> and has its sphere, a new object, at its point.\<close>

definition grows :: "(string \<Rightarrow> point \<Rightarrow> bool) \<Rightarrow> viz \<Rightarrow> viz \<Rightarrow> bool" where
  "grows Q s t \<longleftrightarrow>
     next_id s \<le> next_id t
   \<and> (\<forall>i < next_id s. objects t i = objects s i)
   \<and> (\<forall>w e. map_of (wordObjects s) w = Some e \<longrightarrow> map_of (wordObjects t) w = Some e)
   \<and> (\<forall>w e. map_of (wordObjects s) w = None \<longrightarrow> map_of (wordObjects t) w = Some e \<longrightarrow>
         Q w (e_point e) \<and> next_id s \<le> e_sphere e \<and> e_sphere e < next_id t
       \<and> position (objects t (e_sphere e)) = coords (e_point e))"

text \<open>What the aligned append may store under a new key: the anchor, the marker, or the
  aligned copy of a batch point with that word.\<close>

definition aligned_entry :: "point list \<Rightarrow> vec3 \<Rightarrow> real \<Rightarrow> point \<Rightarrow> string \<Rightarrow> point \<Rightarrow> bool" where
  "aligned_entry others c k ex w q \<longleftrightarrow>
     is_base q \<or> is_mix q \<or> (\<exists>r \<in> set others. word r = w \<and> q = aligned c k ex r)"

text \<open>A later state whose scene is the earlier scene followed by new handles.\<close>

definition appended :: "viz \<Rightarrow> viz \<Rightarrow> bool" where
  "appended t t' \<longleftrightarrow> next_id t \<le> next_id t'
     \<and> (\<exists>xs. scene t' = scene t @ xs \<and> (\<forall>i \<in> set xs. next_id t \<le> i))"

section \<open>Example scenes\<close>

text \<open>Data for the examples: a point, and a batch of points.\<close>

definition mk_point :: "string \<Rightarrow> real \<Rightarrow> real \<Rightarrow> real \<Rightarrow> bool \<Rightarrow> bool \<Rightarrow> bool \<Rightarrow> point" where
  "mk_point w a b c isb ism isn =
     \<lparr>word = w, px = a, py = b, pz = c, is_base = isb, is_mix = ism, is_neighbor = isn\<rparr>"

definition mk_batch :: "point list \<Rightarrow> batch option" where
  "mk_batch pts = Some \<lparr>points = Some pts, word_count = length pts, is_complete = True\<rparr>"

text \<open>A camera in orbit mode a quarter of a unit from its target, and a wheel tick towards
  the target.\<close>

definition near_camera :: camera_state where
  "near_camera = \<lparr>cameraTranslated = False, camera_position = vec (1 / 4) 0 0,
     controls_target = vec 0 0 0, initialCameraPosition = vec 3 3 3,
     initialCameraTarget = vec 0 0 0, camera_fov = 75, camera_aspect = Finite (4 / 3)\<rparr>"

definition wheel_in :: wheel_event where
  "wheel_in = \<lparr>direction = vec (- 1) 0 0, deltaY = 1\<rparr>"

text \<open>A scene showing the anchor \<open>king\<close> at (1, 2, 3), its map entry, and a batch for it.\<close>

definition king_scene :: viz where
  "king_scene = createBaseWord (mk_point ''king'' 1 2 3 True False False) (initialize 800 600)"

definition royal_points :: "point list" where
  "royal_points = [mk_point ''king'' 10 10 10 True False False,
                   mk_point ''queen'' 1 0 0 False False True,
                   mk_point ''prince'' (- 1) 0 0 False False False]"

definition king_entry :: word_entry where
  "king_entry = \<lparr>e_sphere = 6, e_text = 7, e_point = mk_point ''king'' 1 2 3 True False False,
                  e_glow = None\<rparr>"

text \<open>A scene showing the neighbour \<open>queen\<close>, and batches for it.\<close>

definition queen_batch :: "batch option" where
  "queen_batch = mk_batch [mk_point ''queen'' 1 0 0 False False True]"

definition king_queen_batch :: "batch option" where
  "king_queen_batch = mk_batch [mk_point ''king'' 0 0 0 True False False,
                                mk_point ''queen'' 1 0 0 False False True]"

definition queen_scene :: viz where
  "queen_scene = addWordsProgressively (\<lambda>x. x) queen_batch (initialize 800 600)"

definition queen_entry :: word_entry where
  "queen_entry = \<lparr>e_sphere = 6, e_text = 9, e_point = mk_point ''queen'' 1 0 0 False False True,
                   e_glow = Some (GlowPair 7 8)\<rparr>"

text \<open>A scene with the anchor \<open>king\<close>, the neighbour \<open>queen\<close> and the mix marker.\<close>

definition mix_batch :: "batch option" where
  "mix_batch = mk_batch [mk_point ''king'' 1 2 3 True False False,
                         mk_point ''queen'' 1 0 0 False False True,
                         mk_point ''mix'' 2 0 0 False True False]"

definition mix_scene :: viz where
  "mix_scene = addWordsProgressively (\<lambda>x. x) mix_batch (initialize 800 600)"

definition mix_entry :: word_entry where
  "mix_entry = \<lparr>e_sphere = 12, e_text = 14, e_point = mk_point ''mix'' 2 0 0 False True False,
                 e_glow = Some (GlowSingle 13)\<rparr>"

section \<open>Basic facts\<close>

lemma vec_sel [simp]: "vx (vec a b c) = a" "vy (vec a b c) = b" "vz (vec a b c) = c"
  by (simp_all add: vec_def)

lemma vec_coords [simp]: "vec (px p) (py p) (pz p) = coords p"
  by (simp add: coords_def)

lemma vec_eta [simp]: "vec (vx v) (vy v) (vz v) = v"
  by (simp add: vec_def)

lemma vec_eq_iff [simp]: "(vec a b c = vec a' b' c') = (a = a' \<and> b = b' \<and> c = c')"
  by (simp add: vec_def)

lemma mk_point_sel [simp]:
  "word (mk_point w a b c isb ism isn) = w"
  "px (mk_point w a b c isb ism isn) = a"
  "py (mk_point w a b c isb ism isn) = b"
  "pz (mk_point w a b c isb ism isn) = c"
  "is_base (mk_point w a b c isb ism isn) = isb"
  "is_mix (mk_point w a b c isb ism isn) = ism"
  "is_neighbor (mk_point w a b c isb ism isn) = isn"
  "coords (mk_point w a b c isb ism isn) = vec a b c"
  by (simp_all add: mk_point_def coords_def)

lemma initialize_fields [simp]:
  "wordObjects (initialize w h) = []"
  "next_id (initialize w h) = 6"
  "scene (initialize w h) = [0, 1, 2, 3, 4, 5]"
  "currentBaseWord (initialize w h) = None"
  "currentMixPoint (initialize w h) = None"
  "camera_position (cam (initialize w h)) = vec 3 3 3"
  "controls_target (cam (initialize w h)) = vec 0 0 0"
  "cameraTranslated (cam (initialize w h)) = False"
  by (simp_all add: initialize_def)

lemma initialize_objects [simp]: "isMesh (objects (initialize w h) i) = False"
  by (simp add: initialize_def plain_object_def)

lemma coords_sel [simp]: "vx (coords p) = px p" "vy (coords p) = py p" "vz (coords p) = pz p"
  by (simp_all add: coords_def vec_def del: vec_coords)

lemma find_SomeD: "find P xs = Some x \<Longrightarrow> P x \<and> x \<in> set xs"
  by (induction xs) (auto split: if_splits)

lemma otherWords_subset: "p \<in> set (otherWords_of pts) \<Longrightarrow> p \<in> set pts \<and> \<not> is_base p \<and> \<not> is_mix p"
  by (simp add: otherWords_of_def)

subsection \<open>Lists\<close>

lemma fold_remove1_filter_aux:
  "\<forall>x\<in>set pre. \<not> P x \<Longrightarrow> fold remove1 (filter P xs) (pre @ xs) = pre @ filter (\<lambda>x. \<not> P x) xs"
proof (induction xs arbitrary: pre)
  case Nil
  then show ?case by simp
next
  case (Cons x xs)
  show ?case
  proof (cases "P x")
    case True
    with Cons.prems have "x \<notin> set pre" by auto
    then have "remove1 x (pre @ x # xs) = pre @ xs" by (simp add: remove1_append)
    with True Cons.IH[OF Cons.prems] show ?thesis by simp
  next
    case False
    with Cons.prems have "\<forall>y\<in>set (pre @ [x]). \<not> P y" by auto
    from Cons.IH[OF this] False show ?thesis by simp
  qed
qed

lemma fold_remove1_filter: "fold remove1 (filter P xs) xs = filter (\<lambda>x. \<not> P x) xs"
  using fold_remove1_filter_aux[of "[]" P xs] by simp

lemma in_fold_remove1: "x \<in> set ys \<Longrightarrow> x \<notin> set xs \<Longrightarrow> x \<in> set (fold remove1 xs ys)"
proof (induction xs arbitrary: ys)
  case Nil
  then show ?case by simp
next
  case (Cons a xs)
  then have "x \<in> set (remove1 a ys)" by auto
  from Cons.IH[OF this] Cons.prems(2) show ?case by simp
qed

lemma distinct_count_1: "distinct xs \<Longrightarrow> x \<in> set xs \<Longrightarrow> count_list xs x = 1"
  by (induction xs) auto

lemma distinct_fold_remove1: "distinct ys \<Longrightarrow> distinct (fold remove1 xs ys)"
  by (induction xs arbitrary: ys) simp_all

lemma set_fold_remove1_subset: "set (fold remove1 xs ys) \<subseteq> set ys"
proof (induction xs arbitrary: ys)
  case Nil
  then show ?case by simp
next
  case (Cons a xs)
  have "set (fold remove1 xs (remove1 a ys)) \<subseteq> set (remove1 a ys)" by (rule Cons.IH)
  also have "\<dots> \<subseteq> set ys" by (rule set_remove1_subset)
  finally show ?case by simp
qed

lemma distinct_key_count:
  "distinct (map fst al) \<Longrightarrow> map_of al k = Some v \<Longrightarrow> length (filter (\<lambda>kv. fst kv = k) al) = 1"
proof (induction al)
  case Nil
  then show ?case by simp
next
  case (Cons a al)
  show ?case
  proof (cases "fst a = k")
    case True
    with Cons.prems have "k \<notin> fst ` set al" by auto
    then have "\<forall>kv \<in> set al. fst kv \<noteq> k" by force
    then have "filter (\<lambda>kv. fst kv = k) al = []" by (simp add: filter_empty_conv)
    with True show ?thesis by simp
  next
    case False
    with Cons show ?thesis by (cases a) auto
  qed
qed

lemma fold_delete_filter: "fold AList.delete ks al = filter (\<lambda>kv. fst kv \<notin> set ks) al"
proof (induction ks arbitrary: al)
  case Nil
  then show ?case by simp
next
  case (Cons k ks)
  have "AList.delete k al = filter (\<lambda>kv. fst kv \<noteq> k) al"
    by (induction al) auto
  with Cons.IH[of "AList.delete k al"] show ?case
    by (simp add: conj_commute)
qed

lemma doomed_delete:
  "fold AList.delete (map fst (filter (\<lambda>kv. P (fst kv)) al)) al = filter (\<lambda>kv. \<not> P (fst kv)) al"
  unfolding fold_delete_filter by (rule filter_cong) force+

lemma map_of_filter_key:
  "map_of (filter (\<lambda>kv. P (fst kv)) al) k = (if P k then map_of al k else None)"
  by (induction al) auto

lemma fold_add_sum: "fold (\<lambda>p c. c + g p) ps (a::real) = a + sum_list (map g ps)"
  by (induction ps arbitrary: a) simp_all

lemma fold_max_ge: "m \<le> fold (\<lambda>p m. max m (g p)) ps (m::real)"
proof (induction ps arbitrary: m)
  case Nil
  then show ?case by simp
next
  case (Cons p ps)
  have "m \<le> max m (g p)" by simp
  also have "\<dots> \<le> fold (\<lambda>p m. max m (g p)) ps (max m (g p))" by (rule Cons.IH)
  finally show ?case by simp
qed

lemma fold_max_upper: "p \<in> set ps \<Longrightarrow> g p \<le> fold (\<lambda>p m. max m (g p)) ps (m::real)"
proof (induction ps arbitrary: m)
  case Nil
  then show ?case by simp
next
  case (Cons q ps)
  show ?case
  proof (cases "p = q")
    case True
    have "g q \<le> max m (g q)" by simp
    also have "\<dots> \<le> fold (\<lambda>p m. max m (g p)) ps (max m (g q))" by (rule fold_max_ge)
    finally show ?thesis using True by simp
  next
    case False
    with Cons.prems have "p \<in> set ps" by simp
    from Cons.IH[OF this] show ?thesis by simp
  qed
qed

lemma fold_max_attained:
  "fold (\<lambda>p m. max m (g p)) ps (m::real) = m \<or> (\<exists>p \<in> set ps. fold (\<lambda>p m. max m (g p)) ps m = g p)"
proof (induction ps arbitrary: m)
  case Nil
  then show ?case by simp
next
  case (Cons q ps)
  from Cons.IH[of "max m (g q)"] show ?case
    by (auto simp: max_def split: if_splits)
qed

subsection \<open>Distances\<close>

lemma distanceTo_nonneg [simp]: "0 \<le> distanceTo a b"
  by (simp add: distanceTo_def)

lemma distanceTo_x: "distanceTo (vec a 0 0) (vec b 0 0) = \<bar>a - b\<bar>"
  by (simp add: distanceTo_def)

lemma vec3_eqI: "vx a = vx b \<Longrightarrow> vy a = vy b \<Longrightarrow> vz a = vz b \<Longrightarrow> a = (b::vec3)"
  by simp

lemma distanceTo_eq_0: "distanceTo a b = 0 \<Longrightarrow> a = b"
proof -
  assume "distanceTo a b = 0"
  then have "(vx a - vx b)\<^sup>2 + (vy a - vy b)\<^sup>2 + (vz a - vz b)\<^sup>2 = 0"
    by (simp add: distanceTo_def)
  then have "vx a = vx b \<and> vy a = vy b \<and> vz a = vz b"
    by (simp add: sum_power2_eq_zero_iff add_nonneg_eq_0_iff)
  then show "a = b" by (simp add: vec3_eqI)
qed

lemma sqrt_sq3: "sqrt (a\<^sup>2 * k\<^sup>2 + b\<^sup>2 * k\<^sup>2 + c\<^sup>2 * k\<^sup>2) = \<bar>k\<bar> * sqrt (a\<^sup>2 + b\<^sup>2 + c\<^sup>2)"
proof -
  have "a\<^sup>2 * k\<^sup>2 + b\<^sup>2 * k\<^sup>2 + c\<^sup>2 * k\<^sup>2 = k\<^sup>2 * (a\<^sup>2 + b\<^sup>2 + c\<^sup>2)"
    by (simp add: algebra_simps)
  then show ?thesis by (simp add: real_sqrt_mult)
qed

subsection \<open>The sweep and the clearing loops as updates of the scene\<close>

lemma fold_scene_remove: "fold scene_remove xs s = s\<lparr>scene := fold remove1 xs (scene s)\<rparr>"
  by (induction xs arbitrary: s) (simp_all add: scene_remove_def)

lemma clearAllGlowSpheres_eq:
  "clearAllGlowSpheres s = s\<lparr>scene := filter (\<lambda>i. \<not> is_glow (objects s i)) (scene s)\<rparr>"
  by (simp add: clearAllGlowSpheres_def fold_scene_remove fold_remove1_filter)

lemma no_glow_after_sweep:
  "is_glow (objects (clearAllGlowSpheres u) x) \<Longrightarrow> x \<notin> set (scene (clearAllGlowSpheres u))"
  by (simp add: clearAllGlowSpheres_eq)

lemma is_glow_signature: "is_glow ob = highlight_signature ob"
  by (auto simp: is_glow_def highlight_signature_def split: option.splits geometry.splits)

lemma is_glow_created [simp]:
  "\<not> is_glow (createWordSphere pos col sz)"
  "is_glow (createGlowSphere pos col sz)"
  "is_glow ((createGlowSphere pos col sz)\<lparr>mat := map_option (\<lambda>m. m\<lparr>opacity := 15 / 100\<rparr>) (mat (createGlowSphere pos col sz))\<rparr>)"
  "\<not> is_glow (createTextMesh txt pos col sz opac)"
  "\<not> is_glow ((createTextMesh txt pos col sz opac)\<lparr>renderOrder := n\<rparr>)"
  by (simp_all add: is_glow_def createWordSphere_def createGlowSphere_def createTextMesh_def)

lemma is_glow_recolour [simp]:
  "is_glow (ob\<lparr>mat := map_option (\<lambda>m. m\<lparr>color := c\<rparr>) (mat ob), scale := v\<rparr>) = is_glow ob"
  by (cases "mat ob") (auto simp: is_glow_def split: option.splits geometry.splits)

lemma remove_glow_eq: "remove_glow g s = s\<lparr>scene := fold remove1 (case g of None \<Rightarrow> [] | Some (GlowPair gi go) \<Rightarrow> [gi, go] | Some (GlowSingle g1) \<Rightarrow> [g1]) (scene s)\<rparr>"
  by (simp add: remove_glow_def scene_remove_def split: option.splits glow_handle.splits)

lemma remove_entry_eq: "remove_entry e s = s\<lparr>scene := fold remove1 (entry_handles e) (scene s)\<rparr>"
  by (simp add: remove_entry_def remove_glow_eq entry_handles_def scene_remove_def split: option.splits glow_handle.splits)

lemma fold_remove_entry:
  "fold (\<lambda>kv. remove_entry (snd kv)) es s = s\<lparr>scene := fold remove1 (concat (map (\<lambda>kv. entry_handles (snd kv)) es)) (scene s)\<rparr>"
  by (induction es arbitrary: s) (simp_all add: remove_entry_eq)

lemma entry_handles_glow: "entry_handles e = [e_sphere e, e_text e] @ glow_handles e"
  by (simp add: entry_handles_def glow_handles_def)

lemma remove_glow_handles: "remove_glow (e_glow e) s = s\<lparr>scene := fold remove1 (glow_handles e) (scene s)\<rparr>"
  by (simp add: remove_glow_eq glow_handles_def)

lemma clearWordObjects_eq:
  "clearWordObjects s = s\<lparr>scene := filter (\<lambda>i. \<not> is_glow (objects s i))
        (fold remove1 (concat (map (\<lambda>kv. entry_handles (snd kv)) (wordObjects s))) (scene s)),
      wordObjects := [], currentBaseWord := None, currentMixPoint := None\<rparr>"
  by (simp add: clearWordObjects_def clearAllGlowSpheres_eq fold_remove_entry)

lemma clearWordObjects_cam [simp]: "cam (clearWordObjects s) = cam s"
  by (simp add: clearWordObjects_eq)

subsection \<open>The effect of the three creators\<close>

lemmas mesh_defs = new_object_def scene_add_def set_renderOrder_def set_opacity_def

lemma createWordSphere_position [simp]: "position (createWordSphere pos col sz) = pos"
  by (simp add: createWordSphere_def)

lemma createOtherWord_eq:
  "createOtherWord p s =
    (let n = next_id s; pos = coords p;
         fade = max (3 / 10) (1 - distanceTo (camera_position (cam s)) pos / 10) in
     if is_neighbor p then
       s\<lparr>objects := (objects s)
            (n := createWordSphere pos 0x8B0000 (5 / 100),
             Suc n := createGlowSphere pos 0xff0000 (12 / 100),
             Suc (Suc n) := (createGlowSphere pos 0xff4444 (18 / 100))
                \<lparr>mat := map_option (\<lambda>m. m\<lparr>opacity := 15 / 100\<rparr>) (mat (createGlowSphere pos 0xff4444 (18 / 100)))\<rparr>,
             Suc (Suc (Suc n)) := (createTextMesh (word p) pos 0xffffff (5 / 10) fade)\<lparr>renderOrder := 1\<rparr>),
         next_id := Suc (Suc (Suc (Suc n))),
         scene := scene s @ [n, Suc n, Suc (Suc n), Suc (Suc (Suc n))],
         wordObjects := AList.update (word p)
            \<lparr>e_sphere = n, e_text = Suc (Suc (Suc n)), e_point = p,
             e_glow = Some (GlowPair (Suc n) (Suc (Suc n)))\<rparr> (wordObjects s)\<rparr>
     else
       s\<lparr>objects := (objects s)
            (n := createWordSphere pos 0x0066ff (3 / 100),
             Suc n := (createTextMesh (word p) pos 0xffffff (5 / 10) fade)\<lparr>renderOrder := 1\<rparr>),
         next_id := Suc (Suc n),
         scene := scene s @ [n, Suc n],
         wordObjects := AList.update (word p)
            \<lparr>e_sphere = n, e_text = Suc n, e_point = p, e_glow = None\<rparr> (wordObjects s)\<rparr>)"
  by (simp add: createOtherWord_def Let_def mesh_defs)

lemma createCurrentMixPoint_eq:
  "createCurrentMixPoint p s =
    (let n = next_id s; pos = coords p in
       s\<lparr>objects := (objects s)
            (n := \<lparr>isMesh = True, geometry = Some (BoxGeometry (15 / 100)),
              mat = Some \<lparr>color = 0xFF00FF, transparent = True, opacity = 9 / 10,
                          backSide = False, texture = None\<rparr>,
              position = pos, scale = vec 1 1 1, renderOrder = 0, isTextMesh = False\<rparr>,
             Suc n := \<lparr>isMesh = True, geometry = Some (BoxGeometry (25 / 100)),
              mat = Some \<lparr>color = 0xFF00FF, transparent = True, opacity = 3 / 10,
                          backSide = True, texture = None\<rparr>,
              position = pos, scale = vec 1 1 1, renderOrder = 0, isTextMesh = False\<rparr>,
             Suc (Suc n) := (createTextMesh mix_label (vec (vx pos) (vy pos + 2 / 10) (vz pos)) 0xFF00FF (8 / 10) 1)\<lparr>renderOrder := 1\<rparr>),
         next_id := Suc (Suc (Suc n)),
         scene := scene s @ [n, Suc n, Suc (Suc n)],
         wordObjects := AList.update ''current_mix''
            \<lparr>e_sphere = n, e_text = Suc (Suc n), e_point = p,
             e_glow = Some (GlowSingle (Suc n))\<rparr> (wordObjects s),
         currentMixPoint := Some p\<rparr>)"
  by (simp add: createCurrentMixPoint_def Let_def mesh_defs)

lemma createBaseWord_eq:
  "createBaseWord p s =
    (let n = next_id s; pos = coords p;
         objs = (objects s)
            (n := createWordSphere pos 0xff0000 (4 / 100),
             Suc n := (createTextMesh (word p) pos 0xff0000 (6 / 10) 1)\<lparr>renderOrder := 1\<rparr>)
     in s\<lparr>objects := objs,
          next_id := Suc (Suc n),
          scene := filter (\<lambda>i. \<not> is_glow (objs i)) (scene s @ [n, Suc n]),
          wordObjects := AList.update (word p)
            \<lparr>e_sphere = n, e_text = Suc n, e_point = p, e_glow = None\<rparr> (wordObjects s),
          currentBaseWord := Some (word p)\<rparr>)"
  by (simp add: createBaseWord_def Let_def mesh_defs clearAllGlowSpheres_eq)

lemma createBaseWord_scene:
  assumes "\<forall>i \<in> set (scene t). i < next_id t"
  shows "scene (createBaseWord p t)
     = filter (\<lambda>i. \<not> is_glow (objects t i)) (scene t) @ [next_id t, Suc (next_id t)]"
proof -
  have "filter (\<lambda>i. \<not> is_glow (((objects t)
            (next_id t := createWordSphere (coords p) 0xff0000 (4 / 100),
             Suc (next_id t) := (createTextMesh (word p) (coords p) 0xff0000 (6 / 10) 1)\<lparr>renderOrder := 1\<rparr>)) i))
          (scene t)
        = filter (\<lambda>i. \<not> is_glow (objects t i)) (scene t)"
    using assms by (intro filter_cong) auto
  then show ?thesis
    by (simp add: createBaseWord_eq Let_def)
qed

lemma centerOnBaseWord_eq:
  "centerOnBaseWord upd b s =
     s\<lparr>cam := controls_update upd ((cam s)
          \<lparr>controls_target := coords b,
           camera_position := vec (px b + 3) (py b + 3) (pz b + 3),
           initialCameraPosition := vec (px b + 3) (py b + 3) (pz b + 3),
           initialCameraTarget := coords b\<rparr>)\<rparr>"
  by (simp add: centerOnBaseWord_def Let_def)

lemma cam_createOtherWord [simp]: "cam (createOtherWord p s) = cam s"
  by (simp add: createOtherWord_eq Let_def)

lemma cam_createBaseWord [simp]: "cam (createBaseWord p s) = cam s"
  by (simp add: createBaseWord_eq Let_def)

lemma cam_createCurrentMixPoint [simp]: "cam (createCurrentMixPoint p s) = cam s"
  by (simp add: createCurrentMixPoint_eq Let_def)

lemma cam_fold_others [simp]:
  "cam (fold (\<lambda>p t. if \<not> has t (word p) then createOtherWord (f p) t else t) ps t) = cam t"
  by (induction ps arbitrary: t) simp_all

lemma has_createOtherWord: "has (createOtherWord p t) w = (w = word p \<or> has t w)"
  by (simp add: has_def createOtherWord_eq Let_def update_conv')

lemma has_createCurrentMixPoint: "has (createCurrentMixPoint p t) w = (w = ''current_mix'' \<or> has t w)"
  by (simp add: has_def createCurrentMixPoint_eq Let_def update_conv')

lemma has_createBaseWord: "has (createBaseWord p t) w = (w = word p \<or> has t w)"
  by (simp add: has_def createBaseWord_eq Let_def update_conv')

lemma has_fold_others:
  assumes "\<forall>p \<in> set ps. word (f p) = word p"
  shows "has (fold (\<lambda>p t. if \<not> has t (word p) then createOtherWord (f p) t else t) ps t) w
     = (w \<in> word ` set ps \<or> has t w)"
  using assms
proof (induction ps arbitrary: t)
  case Nil
  then show ?case by simp
next
  case (Cons p ps)
  then show ?case by (auto simp: has_createOtherWord)
qed

lemma has_cam [simp]: "has (t\<lparr>cam := c\<rparr>) w = has t w"
  by (simp add: has_def)

lemma has_centerOnBaseWord [simp]: "has (centerOnBaseWord upd b t) w = has t w"
  by (simp add: centerOnBaseWord_eq)

lemma fold_others_skip:
  "\<forall>p \<in> set ps. has t (word p) \<Longrightarrow>
     fold (\<lambda>p t. if \<not> has t (word p) then createOtherWord (f p) t else t) ps t = t"
  by (induction ps) simp_all

subsection \<open>New entries and old objects\<close>

lemma grows_refl: "grows Q s s"
  by (simp add: grows_def)

lemma grows_create:
  assumes g: "grows Q s t"
    and fresh: "map_of (wordObjects t) k = None"
    and n: "next_id t < next_id t'"
    and old: "\<forall>i < next_id t. objects t' i = objects t i"
    and m: "map_of (wordObjects t') = (map_of (wordObjects t))(k \<mapsto> e)"
    and q: "Q k (e_point e)"
    and sp: "e_sphere e = next_id t"
    and pos: "position (objects t' (next_id t)) = coords (e_point e)"
  shows "grows Q s t'"
  unfolding grows_def
proof (intro conjI allI impI)
  from g n show "next_id s \<le> next_id t'" by (simp add: grows_def)
next
  fix i assume "i < next_id s"
  with g old show "objects t' i = objects s i" by (simp add: grows_def)
next
  fix w e' assume "map_of (wordObjects s) w = Some e'"
  with g have "map_of (wordObjects t) w = Some e'" by (simp add: grows_def)
  with fresh m show "map_of (wordObjects t') w = Some e'" by auto
next
  fix w e' assume a: "map_of (wordObjects s) w = None" "map_of (wordObjects t') w = Some e'"
  have "Q w (e_point e') \<and> next_id s \<le> e_sphere e' \<and> e_sphere e' < next_id t'
       \<and> position (objects t' (e_sphere e')) = coords (e_point e')"
  proof (cases "w = k")
    case True
    with a m have "e' = e" by simp
    with True q sp pos n g show ?thesis by (simp add: grows_def)
  next
    case False
    with a m have "map_of (wordObjects t) w = Some e'" by simp
    with a g have "Q w (e_point e') \<and> next_id s \<le> e_sphere e' \<and> e_sphere e' < next_id t
       \<and> position (objects t (e_sphere e')) = coords (e_point e')" by (simp add: grows_def)
    with old n show ?thesis by simp
  qed
  then show "Q w (e_point e')" "next_id s \<le> e_sphere e'" "e_sphere e' < next_id t'"
    "position (objects t' (e_sphere e')) = coords (e_point e')" by simp_all
qed

lemma grows_createOtherWord:
  assumes "grows Q s t" "\<not> has t (word p)" "Q (word p) p"
  shows "grows Q s (createOtherWord p t)"
proof (rule grows_create[OF assms(1), where k = "word p" and e = "the (map_of (wordObjects (createOtherWord p t)) (word p))"])
  show "map_of (wordObjects t) (word p) = None" using assms(2) by (simp add: has_def)
  show "next_id t < next_id (createOtherWord p t)" by (simp add: createOtherWord_eq Let_def)
  show "\<forall>i<next_id t. objects (createOtherWord p t) i = objects t i"
    by (simp add: createOtherWord_eq Let_def)
  show "map_of (wordObjects (createOtherWord p t)) =
    (map_of (wordObjects t))(word p \<mapsto> the (map_of (wordObjects (createOtherWord p t)) (word p)))"
    by (simp add: createOtherWord_eq Let_def update_conv')
  show "Q (word p) (e_point (the (map_of (wordObjects (createOtherWord p t)) (word p))))"
    using assms(3) by (simp add: createOtherWord_eq Let_def update_conv')
  show "e_sphere (the (map_of (wordObjects (createOtherWord p t)) (word p))) = next_id t"
    by (simp add: createOtherWord_eq Let_def update_conv')
  show "position (objects (createOtherWord p t) (next_id t)) =
    coords (e_point (the (map_of (wordObjects (createOtherWord p t)) (word p))))"
    by (simp add: createOtherWord_eq Let_def update_conv')
qed

lemma grows_createBaseWord:
  assumes "grows Q s t" "\<not> has t (word p)" "Q (word p) p"
  shows "grows Q s (createBaseWord p t)"
proof (rule grows_create[OF assms(1), where k = "word p" and e = "the (map_of (wordObjects (createBaseWord p t)) (word p))"])
  show "map_of (wordObjects t) (word p) = None" using assms(2) by (simp add: has_def)
  show "next_id t < next_id (createBaseWord p t)" by (simp add: createBaseWord_eq Let_def)
  show "\<forall>i<next_id t. objects (createBaseWord p t) i = objects t i"
    by (simp add: createBaseWord_eq Let_def)
  show "map_of (wordObjects (createBaseWord p t)) =
    (map_of (wordObjects t))(word p \<mapsto> the (map_of (wordObjects (createBaseWord p t)) (word p)))"
    by (simp add: createBaseWord_eq Let_def update_conv')
  show "Q (word p) (e_point (the (map_of (wordObjects (createBaseWord p t)) (word p))))"
    using assms(3) by (simp add: createBaseWord_eq Let_def update_conv')
  show "e_sphere (the (map_of (wordObjects (createBaseWord p t)) (word p))) = next_id t"
    by (simp add: createBaseWord_eq Let_def update_conv')
  show "position (objects (createBaseWord p t) (next_id t)) =
    coords (e_point (the (map_of (wordObjects (createBaseWord p t)) (word p))))"
    by (simp add: createBaseWord_eq Let_def update_conv')
qed

lemma grows_createCurrentMixPoint:
  assumes "grows Q s t" "\<not> has t ''current_mix''" "Q ''current_mix'' p"
  shows "grows Q s (createCurrentMixPoint p t)"
proof (rule grows_create[OF assms(1), where k = "''current_mix''" and e = "the (map_of (wordObjects (createCurrentMixPoint p t)) ''current_mix'')"])
  show "map_of (wordObjects t) ''current_mix'' = None" using assms(2) by (simp add: has_def)
  show "next_id t < next_id (createCurrentMixPoint p t)" by (simp add: createCurrentMixPoint_eq Let_def)
  show "\<forall>i<next_id t. objects (createCurrentMixPoint p t) i = objects t i"
    by (simp add: createCurrentMixPoint_eq Let_def)
  show "map_of (wordObjects (createCurrentMixPoint p t)) =
    (map_of (wordObjects t))(''current_mix'' \<mapsto> the (map_of (wordObjects (createCurrentMixPoint p t)) ''current_mix''))"
    by (simp add: createCurrentMixPoint_eq Let_def update_conv')
  show "Q ''current_mix'' (e_point (the (map_of (wordObjects (createCurrentMixPoint p t)) ''current_mix'')))"
    using assms(3) by (simp add: createCurrentMixPoint_eq Let_def update_conv')
  show "e_sphere (the (map_of (wordObjects (createCurrentMixPoint p t)) ''current_mix'')) = next_id t"
    by (simp add: createCurrentMixPoint_eq Let_def update_conv')
  show "position (objects (createCurrentMixPoint p t) (next_id t)) =
    coords (e_point (the (map_of (wordObjects (createCurrentMixPoint p t)) ''current_mix'')))"
    by (simp add: createCurrentMixPoint_eq Let_def update_conv')
qed

lemma grows_cam: "grows Q s t \<Longrightarrow> grows Q s (t\<lparr>cam := c\<rparr>)"
  by (simp add: grows_def)

lemma grows_fold_others:
  assumes "\<forall>p \<in> set ps. word (f p) = word p \<and> Q (word p) (f p)"
  shows "grows Q s t \<Longrightarrow>
    grows Q s (fold (\<lambda>p t. if \<not> has t (word p) then createOtherWord (f p) t else t) ps t)"
  using assms
proof (induction ps arbitrary: t)
  case Nil
  then show ?case by simp
next
  case (Cons p ps)
  have "grows Q s (if \<not> has t (word p) then createOtherWord (f p) t else t)"
    using Cons.prems grows_createOtherWord[of Q s t "f p"] by auto
  from Cons.IH[OF this] Cons.prems(2) show ?case by simp
qed

lemma append_points_grows: "grows (\<lambda>w q. q \<in> set pts) s (append_points upd pts s)"
proof -
  let ?Q = "\<lambda>(w::string) q. q \<in> set pts"
  let ?s1 = "case find is_base pts of None \<Rightarrow> s
                | Some b \<Rightarrow> if \<not> has s (word b)
                            then centerOnBaseWord upd b (createBaseWord b s) else s"
  let ?s2 = "fold (\<lambda>p t. if \<not> has t (word p) then createOtherWord p t else t) (otherWords_of pts) ?s1"
  have 1: "grows ?Q s ?s1"
  proof (cases "find is_base pts")
    case None
    then show ?thesis by (simp add: grows_refl)
  next
    case (Some b)
    then have "b \<in> set pts" by (simp add: find_SomeD)
    with Some grows_createBaseWord[OF grows_refl, of s b ?Q] show ?thesis
      by (auto simp: grows_refl centerOnBaseWord_eq intro: grows_cam)
  qed
  have 2: "grows ?Q s ?s2"
    using grows_fold_others[where f = "\<lambda>p. p" and Q = ?Q, OF _ 1] otherWords_subset by blast
  have "grows ?Q s (case find is_mix pts of None \<Rightarrow> ?s2
         | Some m \<Rightarrow> if \<not> has ?s2 ''current_mix'' then createCurrentMixPoint m ?s2 else ?s2)"
  proof (cases "find is_mix pts")
    case None
    with 2 show ?thesis by simp
  next
    case (Some m)
    then have "m \<in> set pts" by (simp add: find_SomeD)
    with Some 2 grows_createCurrentMixPoint[OF 2, of m] show ?thesis by auto
  qed
  then show ?thesis by (simp add: append_points_def Let_def)
qed

lemma append_points_cam:
  "cam (append_points upd pts s) =
     (case find is_base pts of None \<Rightarrow> cam s
      | Some b \<Rightarrow> if \<not> has s (word b) then cam (centerOnBaseWord upd b s) else cam s)"
  by (simp add: append_points_def Let_def centerOnBaseWord_eq split: option.splits)

lemma addWordsProgressively_grows:
  "grows (\<lambda>w q. True) s (addWordsProgressively upd data s)"
proof -
  have "grows (\<lambda>w q. True) s (append_points upd pts s)" for pts
    using append_points_grows[of pts s upd] unfolding grows_def by blast
  then show ?thesis
    by (auto simp: addWordsProgressively_def grows_refl split: option.splits)
qed

lemma has_append_points:
  "has (append_points upd pts s) w =
     (has s w \<or> (\<exists>b. find is_base pts = Some b \<and> w = word b)
      \<or> w \<in> word ` set (otherWords_of pts)
      \<or> (find is_mix pts \<noteq> None \<and> w = ''current_mix''))"
  using has_fold_others[where f = "\<lambda>p. p"]
  by (auto simp: append_points_def Let_def has_createCurrentMixPoint has_createBaseWord
      split: option.splits)

lemma append_points_twice: "append_points upd pts (append_points upd pts s) = append_points upd pts s"
proof -
  let ?s1 = "append_points upd pts s"
  have b: "\<And>b. find is_base pts = Some b \<Longrightarrow> has ?s1 (word b)"
    by (simp add: has_append_points)
  have o: "\<forall>p \<in> set (otherWords_of pts). has ?s1 (word p)"
    by (simp add: has_append_points)
  have m: "find is_mix pts \<noteq> None \<Longrightarrow> has ?s1 ''current_mix''"
    by (simp add: has_append_points)
  show ?thesis
    unfolding append_points_def[of upd pts ?s1] Let_def
    using b m by (auto simp: fold_others_skip[OF o] split: option.splits)
qed

lemma addWordsProgressively_twice:
  "addWordsProgressively upd data (addWordsProgressively upd data s) = addWordsProgressively upd data s"
  by (auto simp: addWordsProgressively_def append_points_twice split: option.splits)

subsection \<open>Scenes that are only appended to\<close>

lemma appended_refl: "appended t t"
  by (simp add: appended_def)

lemma appended_trans: "appended a b \<Longrightarrow> appended b c \<Longrightarrow> appended a c"
  unfolding appended_def by fastforce

lemma appended_createOtherWord: "appended t (createOtherWord p t)"
  by (auto simp: appended_def createOtherWord_eq Let_def)

lemma appended_createCurrentMixPoint: "appended t (createCurrentMixPoint p t)"
  by (auto simp: appended_def createCurrentMixPoint_eq Let_def)

lemma appended_fold_others:
  "appended t (fold (\<lambda>p t. if \<not> has t (word p) then createOtherWord (f p) t else t) ps t)"
proof (induction ps arbitrary: t)
  case Nil
  then show ?case by (simp add: appended_refl)
next
  case (Cons p ps)
  have "appended t (if \<not> has t (word p) then createOtherWord (f p) t else t)"
    by (simp add: appended_refl appended_createOtherWord)
  from appended_trans[OF this Cons.IH] show ?case by simp
qed

lemma appended_append_points:
  assumes "\<forall>b. find is_base pts = Some b \<longrightarrow> has s (word b)"
  shows "appended s (append_points upd pts s)"
proof -
  let ?s2 = "fold (\<lambda>p t. if \<not> has t (word p) then createOtherWord p t else t) (otherWords_of pts) s"
  have 2: "appended s ?s2" by (rule appended_fold_others)
  have "appended s (case find is_mix pts of None \<Rightarrow> ?s2
         | Some m \<Rightarrow> if \<not> has ?s2 ''current_mix'' then createCurrentMixPoint m ?s2 else ?s2)"
    using 2 appended_trans[OF 2 appended_createCurrentMixPoint] by (auto split: option.splits)
  with assms show ?thesis by (auto simp: append_points_def Let_def split: option.splits)
qed

subsection \<open>Well-formed states\<close>

text \<open>The initial state is well-formed, and each operation that changes the scene or the
  map (\<open>updateVisualization\<close>, \<open>addWordsProgressively\<close>, \<open>addWordsProgressivelyAligned\<close>,
  \<open>clearWordObjects\<close>, \<open>clearAllGlowSpheres\<close>, \<open>clearWordObjectsExcept\<close>, the resize) keeps
  a state well-formed: \<open>wf_scene\<close> holds in every state the program reaches.\<close>

lemma wf_initialize: "wf_scene (initialize w h)"
  by (simp add: wf_scene_def)

text \<open>Storing an entry under a key, new or not, next to entries that are left as they
  were.\<close>

lemma wf_update:
  assumes wf: "wf_scene t"
    and wo: "wordObjects t' = AList.update k e (wordObjects t)"
    and nid: "next_id t \<le> next_id t'"
    and old: "\<forall>k' e'. k' \<noteq> k \<and> map_of (wordObjects t) k' = Some e' \<longrightarrow>
                (\<forall>i \<in> set (entry_handles e'). objects t' i = objects t i)
              \<and> e_sphere e' \<in> set (scene t') \<and> e_text e' \<in> set (scene t')
              \<and> set (entry_handles e) \<inter> set (entry_handles e') = {}"
    and sc_d: "distinct (scene t')"
    and sc_b: "\<forall>i \<in> set (scene t'). i < next_id t'"
    and e_d: "distinct (entry_handles e)"
    and e_b: "\<forall>i \<in> set (entry_handles e). i < next_id t'"
    and e_s: "e_sphere e \<in> set (scene t')" "e_text e \<in> set (scene t')"
    and e_g: "\<not> is_glow (objects t' (e_sphere e))" "\<not> is_glow (objects t' (e_text e))"
       "\<forall>g \<in> set (glow_handles e). is_glow (objects t' g)"
  shows "wf_scene t'"
proof -
  have m: "map_of (wordObjects t') = (map_of (wordObjects t))(k \<mapsto> e)"
    by (simp add: wo update_conv')
  have oldent: "distinct (entry_handles e')
       \<and> (\<forall>i \<in> set (entry_handles e'). i < next_id t')
       \<and> e_sphere e' \<in> set (scene t') \<and> e_text e' \<in> set (scene t')
       \<and> \<not> is_glow (objects t' (e_sphere e')) \<and> \<not> is_glow (objects t' (e_text e'))
       \<and> (\<forall>g \<in> set (glow_handles e'). is_glow (objects t' g))"
    if that: "k' \<noteq> k" "map_of (wordObjects t) k' = Some e'" for k' e'
  proof -
    from wf that(2) have 4: "distinct (entry_handles e')"
       "\<forall>i \<in> set (entry_handles e'). i < next_id t"
       "\<not> is_glow (objects t (e_sphere e'))" "\<not> is_glow (objects t (e_text e'))"
       "\<forall>g \<in> set (glow_handles e'). is_glow (objects t g)"
      unfolding wf_scene_def by blast+
    from old that have o: "\<forall>i \<in> set (entry_handles e'). objects t' i = objects t i"
      and s: "e_sphere e' \<in> set (scene t')" "e_text e' \<in> set (scene t')" by blast+
    from o have o': "objects t' (e_sphere e') = objects t (e_sphere e')"
      "objects t' (e_text e') = objects t (e_text e')"
      "\<forall>g \<in> set (glow_handles e'). objects t' g = objects t g"
      by (simp_all add: entry_handles_glow)
    from 4 o' s nid show ?thesis by fastforce
  qed
  show ?thesis
    unfolding wf_scene_def
  proof (intro conjI allI impI)
    from wf show "distinct (map fst (wordObjects t'))"
      by (simp add: wo distinct_update wf_scene_def)
    show "distinct (scene t')" by (rule sc_d)
    show "\<forall>i\<in>set (scene t'). i < next_id t'" by (rule sc_b)
  next
    fix k' e' assume a: "map_of (wordObjects t') k' = Some e'"
    have "distinct (entry_handles e')
       \<and> (\<forall>i \<in> set (entry_handles e'). i < next_id t')
       \<and> e_sphere e' \<in> set (scene t') \<and> e_text e' \<in> set (scene t')
       \<and> \<not> is_glow (objects t' (e_sphere e')) \<and> \<not> is_glow (objects t' (e_text e'))
       \<and> (\<forall>g \<in> set (glow_handles e'). is_glow (objects t' g))"
    proof (cases "k' = k")
      case True
      with a m have "e' = e" by simp
      with e_d e_b e_s e_g show ?thesis by auto
    next
      case False
      with a m have "map_of (wordObjects t) k' = Some e'" by simp
      from oldent[OF False this] show ?thesis .
    qed
    then show "distinct (entry_handles e')" "\<forall>i \<in> set (entry_handles e'). i < next_id t'"
       "e_sphere e' \<in> set (scene t')" "e_text e' \<in> set (scene t')"
       "\<not> is_glow (objects t' (e_sphere e'))" "\<not> is_glow (objects t' (e_text e'))"
       "\<forall>g \<in> set (glow_handles e'). is_glow (objects t' g)" by blast+
  next
    fix k1 e1 k2 e2
    assume a: "map_of (wordObjects t') k1 = Some e1 \<and> map_of (wordObjects t') k2 = Some e2 \<and> k1 \<noteq> k2"
    have new_old: "set (entry_handles e) \<inter> set (entry_handles e') = {}"
      if "k' \<noteq> k" "map_of (wordObjects t) k' = Some e'" for k' e'
      using old that by blast
    show "set (entry_handles e1) \<inter> set (entry_handles e2) = {}"
    proof (cases "k1 = k")
      case True
      with a m have "e1 = e" "k2 \<noteq> k" "map_of (wordObjects t) k2 = Some e2" by auto
      with new_old show ?thesis by blast
    next
      case k1: False
      show ?thesis
      proof (cases "k2 = k")
        case True
        with a m k1 have "e2 = e" "map_of (wordObjects t) k1 = Some e1" by auto
        with new_old[OF k1] show ?thesis by blast
      next
        case False
        with a m k1 have "map_of (wordObjects t) k1 = Some e1" "map_of (wordObjects t) k2 = Some e2"
          by auto
        with wf a show ?thesis unfolding wf_scene_def by blast
      qed
    qed
  qed
qed

text \<open>A creator that stores fresh handles under a key, new or not.\<close>

lemma wf_store:
  assumes wf: "wf_scene t"
    and wo: "wordObjects t' = AList.update k e (wordObjects t)"
    and nid: "next_id t \<le> next_id t'"
    and old: "\<forall>i < next_id t. objects t' i = objects t i"
    and sc_d: "distinct (scene t')"
    and sc_b: "\<forall>i \<in> set (scene t'). i < next_id t'"
    and sc_k: "\<forall>i \<in> set (scene t). \<not> is_glow (objects t i) \<longrightarrow> i \<in> set (scene t')"
    and e_d: "distinct (entry_handles e)"
    and e_b: "\<forall>i \<in> set (entry_handles e). next_id t \<le> i \<and> i < next_id t'"
    and e_s: "e_sphere e \<in> set (scene t')" "e_text e \<in> set (scene t')"
    and e_g: "\<not> is_glow (objects t' (e_sphere e))" "\<not> is_glow (objects t' (e_text e))"
       "\<forall>g \<in> set (glow_handles e). is_glow (objects t' g)"
  shows "wf_scene t'"
proof (rule wf_update[OF wf wo nid _ sc_d sc_b e_d _ e_s e_g])
  from e_b show "\<forall>i\<in>set (entry_handles e). i < next_id t'" by simp
  show "\<forall>k' e'. k' \<noteq> k \<and> map_of (wordObjects t) k' = Some e' \<longrightarrow>
               (\<forall>i\<in>set (entry_handles e'). objects t' i = objects t i) \<and>
               e_sphere e' \<in> set (scene t') \<and> e_text e' \<in> set (scene t') \<and>
               set (entry_handles e) \<inter> set (entry_handles e') = {}"
  proof (intro allI impI)
    fix k' e' assume a: "k' \<noteq> k \<and> map_of (wordObjects t) k' = Some e'"
    with wf have 4: "\<forall>i \<in> set (entry_handles e'). i < next_id t"
       "e_sphere e' \<in> set (scene t)" "e_text e' \<in> set (scene t)"
       "\<not> is_glow (objects t (e_sphere e'))" "\<not> is_glow (objects t (e_text e'))"
      unfolding wf_scene_def by blast+
    from 4(1) old have o: "\<forall>i\<in>set (entry_handles e'). objects t' i = objects t i" by simp
    from sc_k 4 have s: "e_sphere e' \<in> set (scene t')" "e_text e' \<in> set (scene t')" by blast+
    from 4(1) e_b have d: "set (entry_handles e) \<inter> set (entry_handles e') = {}" by fastforce
    from o s d show "(\<forall>i\<in>set (entry_handles e'). objects t' i = objects t i) \<and>
               e_sphere e' \<in> set (scene t') \<and> e_text e' \<in> set (scene t') \<and>
               set (entry_handles e) \<inter> set (entry_handles e') = {}" by blast
  qed
qed

lemma wf_createOtherWord:
  assumes "wf_scene t"
  shows "wf_scene (createOtherWord p t)"
proof -
  from assms(1) have b: "\<forall>i \<in> set (scene t). i < next_id t" and d: "distinct (scene t)"
    by (simp_all add: wf_scene_def)
  then have nin: "next_id t \<notin> set (scene t)" "Suc (next_id t) \<notin> set (scene t)"
    "Suc (Suc (next_id t)) \<notin> set (scene t)" "Suc (Suc (Suc (next_id t))) \<notin> set (scene t)"
    by fastforce+
  show ?thesis
    by (rule wf_store[OF assms(1), where k = "word p"
        and e = "the (map_of (wordObjects (createOtherWord p t)) (word p))"])
      (use b d nin in \<open>auto simp: createOtherWord_eq Let_def update_conv' entry_handles_def
        glow_handles_def less_Suc_eq is_glow_def createWordSphere_def createGlowSphere_def
        createTextMesh_def\<close>)
qed

lemma wf_createCurrentMixPoint:
  assumes "wf_scene t"
  shows "wf_scene (createCurrentMixPoint p t)"
proof -
  from assms(1) have b: "\<forall>i \<in> set (scene t). i < next_id t" and d: "distinct (scene t)"
    by (simp_all add: wf_scene_def)
  then have nin: "next_id t \<notin> set (scene t)" "Suc (next_id t) \<notin> set (scene t)"
    "Suc (Suc (next_id t)) \<notin> set (scene t)"
    by fastforce+
  show ?thesis
    by (rule wf_store[OF assms(1), where k = "''current_mix''"
        and e = "the (map_of (wordObjects (createCurrentMixPoint p t)) ''current_mix'')"])
      (use b d nin in \<open>auto simp: createCurrentMixPoint_eq Let_def update_conv' entry_handles_def
        glow_handles_def less_Suc_eq is_glow_def createWordSphere_def createGlowSphere_def
        createTextMesh_def\<close>)
qed

lemma wf_createBaseWord:
  assumes "wf_scene t"
  shows "wf_scene (createBaseWord p t)"
proof -
  from assms(1) have b: "\<forall>i \<in> set (scene t). i < next_id t" and d: "distinct (scene t)"
    by (simp_all add: wf_scene_def)
  then have nin: "next_id t \<notin> set (scene t)" "Suc (next_id t) \<notin> set (scene t)"
    by fastforce+
  note sc = createBaseWord_scene[OF b, of p]
  show ?thesis
  proof (rule wf_store[OF assms(1), where k = "word p"
        and e = "the (map_of (wordObjects (createBaseWord p t)) (word p))"])
    show "distinct (scene (createBaseWord p t))" using d nin by (auto simp: sc)
    show "\<forall>i\<in>set (scene (createBaseWord p t)). i < next_id (createBaseWord p t)"
      using b by (auto simp: sc createBaseWord_eq Let_def)
    show "\<forall>i\<in>set (scene t). \<not> is_glow (objects t i) \<longrightarrow> i \<in> set (scene (createBaseWord p t))"
      by (simp add: sc)
    show "e_sphere (the (map_of (wordObjects (createBaseWord p t)) (word p))) \<in> set (scene (createBaseWord p t))"
      "e_text (the (map_of (wordObjects (createBaseWord p t)) (word p))) \<in> set (scene (createBaseWord p t))"
      by (simp_all add: sc) (simp_all add: createBaseWord_eq Let_def update_conv')
  qed (auto simp: createBaseWord_eq Let_def update_conv' entry_handles_def glow_handles_def)
qed

lemma wf_cam [simp]: "wf_scene (t\<lparr>cam := c\<rparr>) = wf_scene t"
  by (simp add: wf_scene_def)

lemma wf_fold_others:
  "wf_scene t \<Longrightarrow>
    wf_scene (fold (\<lambda>p t. if \<not> has t (word p) then createOtherWord (f p) t else t) ps t)"
  by (induction ps arbitrary: t) (simp_all add: wf_createOtherWord)

lemma wf_append_points: "wf_scene s \<Longrightarrow> wf_scene (append_points upd pts s)"
proof -
  assume wf: "wf_scene s"
  let ?s1 = "case find is_base pts of None \<Rightarrow> s
                | Some b \<Rightarrow> if \<not> has s (word b)
                            then centerOnBaseWord upd b (createBaseWord b s) else s"
  let ?s2 = "fold (\<lambda>p t. if \<not> has t (word p) then createOtherWord p t else t) (otherWords_of pts) ?s1"
  have 1: "wf_scene ?s1"
    using wf wf_createBaseWord[OF wf] by (auto simp: centerOnBaseWord_eq split: option.splits)
  have 2: "wf_scene ?s2"
    using wf_fold_others[where f = "\<lambda>p. p", OF 1] by simp
  have "wf_scene (case find is_mix pts of None \<Rightarrow> ?s2
         | Some m \<Rightarrow> if \<not> has ?s2 ''current_mix'' then createCurrentMixPoint m ?s2 else ?s2)"
    using 2 wf_createCurrentMixPoint[OF 2] by (auto split: option.splits)
  then show ?thesis by (simp add: append_points_def Let_def)
qed

lemma wf_addWordsProgressively: "wf_scene s \<Longrightarrow> wf_scene (addWordsProgressively upd data s)"
  by (auto simp: addWordsProgressively_def wf_append_points split: option.splits)

lemma wf_shrink:
  assumes wf: "wf_scene s" and o: "objects t = objects s" and n: "next_id t = next_id s"
    and d: "distinct (scene t)" and sub: "set (scene t) \<subseteq> set (scene s)"
    and dk: "distinct (map fst (wordObjects t))"
    and ent: "\<forall>k e. map_of (wordObjects t) k = Some e \<longrightarrow> map_of (wordObjects s) k = Some e
                \<and> e_sphere e \<in> set (scene t) \<and> e_text e \<in> set (scene t)"
  shows "wf_scene t"
  unfolding wf_scene_def
proof (intro conjI allI impI)
  show "distinct (map fst (wordObjects t))" by (rule dk)
  show "distinct (scene t)" by (rule d)
  from wf have "\<forall>i\<in>set (scene s). i < next_id s" by (simp add: wf_scene_def)
  with sub show "\<forall>i\<in>set (scene t). i < next_id t" by (auto simp: n)
next
  fix k e assume a: "map_of (wordObjects t) k = Some e"
  with ent have m: "map_of (wordObjects s) k = Some e"
    and s: "e_sphere e \<in> set (scene t)" "e_text e \<in> set (scene t)" by blast+
  from s show "e_sphere e \<in> set (scene t)" "e_text e \<in> set (scene t)" .
  from wf m show "distinct (entry_handles e)" "\<forall>i \<in> set (entry_handles e). i < next_id t"
    "\<not> is_glow (objects t (e_sphere e))" "\<not> is_glow (objects t (e_text e))"
    "\<forall>g \<in> set (glow_handles e). is_glow (objects t g)"
    unfolding wf_scene_def o n by blast+
next
  fix k1 e1 k2 e2
  assume a: "map_of (wordObjects t) k1 = Some e1 \<and> map_of (wordObjects t) k2 = Some e2 \<and> k1 \<noteq> k2"
  with ent have "map_of (wordObjects s) k1 = Some e1" "map_of (wordObjects s) k2 = Some e2" "k1 \<noteq> k2"
    by blast+
  with wf show "set (entry_handles e1) \<inter> set (entry_handles e2) = {}"
    unfolding wf_scene_def by blast
qed

lemma wf_clearAllGlowSpheres: "wf_scene s \<Longrightarrow> wf_scene (clearAllGlowSpheres s)"
proof (rule wf_shrink[where s = s])
  assume wf: "wf_scene s"
  then show "distinct (scene (clearAllGlowSpheres s))"
    "distinct (map fst (wordObjects (clearAllGlowSpheres s)))"
    by (simp_all add: clearAllGlowSpheres_eq wf_scene_def)
  show "\<forall>k e. map_of (wordObjects (clearAllGlowSpheres s)) k = Some e \<longrightarrow>
      map_of (wordObjects s) k = Some e \<and> e_sphere e \<in> set (scene (clearAllGlowSpheres s))
      \<and> e_text e \<in> set (scene (clearAllGlowSpheres s))"
    using wf unfolding wf_scene_def by (simp add: clearAllGlowSpheres_eq)
qed (simp_all add: clearAllGlowSpheres_eq)

lemma wf_clearWordObjects: "wf_scene s \<Longrightarrow> wf_scene (clearWordObjects s)"
proof -
  assume wf: "wf_scene s"
  then have b: "\<forall>i \<in> set (scene s). i < next_id s" and d: "distinct (scene s)"
    by (simp_all add: wf_scene_def)
  let ?sc = "fold remove1 (concat (map (\<lambda>kv. entry_handles (snd kv)) (wordObjects s))) (scene s)"
  have "distinct ?sc" using d by (rule distinct_fold_remove1)
  moreover have "\<forall>i \<in> set ?sc. i < next_id s"
    using b set_fold_remove1_subset[of _ "scene s"] by blast
  ultimately show ?thesis by (simp add: clearWordObjects_eq wf_scene_def)
qed

lemma wf_fold_createOtherWord: "wf_scene t \<Longrightarrow> wf_scene (fold createOtherWord ps t)"
  by (induction ps arbitrary: t) (simp_all add: wf_createOtherWord)

lemma wf_fitCameraToPoints: "wf_scene (fitCameraToPoints upd pts t) = wf_scene t"
  by (simp add: fitCameraToPoints_def Let_def)

lemma wf_updateVisualization: "wf_scene s \<Longrightarrow> wf_scene (updateVisualization upd data s)"
proof -
  assume "wf_scene s"
  then have c: "wf_scene (clearWordObjects s)" by (rule wf_clearWordObjects)
  have "wf_scene (replace_points upd pts (clearWordObjects s))" for pts
    using c by (auto simp: replace_points_def Let_def wf_fitCameraToPoints intro!: wf_createCurrentMixPoint
        wf_fold_createOtherWord wf_createBaseWord split: option.splits)
  with c show ?thesis
    by (auto simp: updateVisualization_def Let_def split: option.splits)
qed

lemma wf_align_points: "wf_scene s \<Longrightarrow> wf_scene (align_points pts a s)"
proof -
  assume wf: "wf_scene s"
  let ?ex = "e_point a"
  let ?c = "centroid (otherWords_of pts)"
  let ?k = "scaleFactor_of (maxDistance_of (otherWords_of pts) ?c)"
  let ?s1 = "case find is_base pts of None \<Rightarrow> s
                | Some b \<Rightarrow> if \<not> has s (word b)
                            then createBaseWord (b\<lparr>px := px ?ex, py := py ?ex, pz := pz ?ex\<rparr>) s
                            else s"
  let ?s2 = "fold (\<lambda>p t. if \<not> has t (word p) then createOtherWord (aligned ?c ?k ?ex p) t else t)
                  (otherWords_of pts) ?s1"
  have 1: "wf_scene ?s1" using wf by (auto simp: wf_createBaseWord split: option.splits)
  have 2: "wf_scene ?s2" using wf_fold_others[where f = "aligned ?c ?k ?ex", OF 1] by simp
  have "wf_scene (case find is_mix pts of None \<Rightarrow> ?s2
         | Some m \<Rightarrow> if \<not> has ?s2 ''current_mix''
                     then createCurrentMixPoint (aligned ?c ?k ?ex m) ?s2 else ?s2)"
    using 2 by (auto simp: wf_createCurrentMixPoint split: option.splits)
  then show ?thesis by (simp add: align_points_def Let_def)
qed

lemma wf_addWordsProgressivelyAligned:
  "wf_scene s \<Longrightarrow> wf_scene (addWordsProgressivelyAligned upd data w s)"
  by (auto simp: addWordsProgressivelyAligned_def wf_align_points wf_addWordsProgressively
      split: option.splits)

lemma wf_onWindowResize: "wf_scene (onWindowResize w h s) = wf_scene s"
  by (simp add: onWindowResize_def wf_scene_def)

subsection \<open>The example scenes\<close>

lemma king_scene_fields:
  "wordObjects king_scene = [(''king'', king_entry)]"
  "next_id king_scene = 8"
  "scene king_scene = [0, 1, 2, 3, 4, 5, 6, 7]"
  "cam king_scene = cam (initialize 800 600)"
  by (simp_all add: king_scene_def king_entry_def createBaseWord_eq Let_def is_glow_def
      createWordSphere_def createTextMesh_def)

lemma king_scene_glow: "\<not> is_glow (objects king_scene i)"
  by (simp add: king_scene_def createBaseWord_eq Let_def)
    (simp add: is_glow_def createWordSphere_def createTextMesh_def)

lemma royal_others:
  "otherWords_of royal_points = [mk_point ''queen'' 1 0 0 False False True,
                   mk_point ''prince'' (- 1) 0 0 False False False]"
  by (simp add: royal_points_def otherWords_of_def)

lemma royal_centroid:
  "centroid [mk_point ''queen'' 1 0 0 False False True,
             mk_point ''prince'' (- 1) 0 0 False False False] = vec 0 0 0"
  by (simp add: centroid_def Let_def)

lemma royal_maxDistance:
  "maxDistance_of [mk_point ''queen'' 1 0 0 False False True,
                   mk_point ''prince'' (- 1) 0 0 False False False] (vec 0 0 0) = 1"
  by (simp add: maxDistance_of_def)

lemma royal_find:
  "find is_base royal_points = Some (mk_point ''king'' 10 10 10 True False False)"
  "find is_mix royal_points = None"
  by (simp_all add: royal_points_def)

lemma queen_scene_fields:
  "wordObjects queen_scene = [(''queen'', queen_entry)]"
  "next_id queen_scene = 10"
  "scene queen_scene = [0, 1, 2, 3, 4, 5, 6, 7, 8, 9]"
  by (simp_all add: queen_scene_def queen_batch_def queen_entry_def mk_batch_def
      addWordsProgressively_def append_points_def otherWords_of_def Let_def has_def
      createOtherWord_eq)

lemma queen_scene_glow: "is_glow (objects queen_scene i) = (i = 7 \<or> i = 8)"
  by (simp add: queen_scene_def queen_batch_def mk_batch_def
      addWordsProgressively_def append_points_def otherWords_of_def Let_def has_def
      createOtherWord_eq)
    (simp add: is_glow_def createWordSphere_def createGlowSphere_def createTextMesh_def)

lemma mix_scene_steps:
  "mix_scene = createCurrentMixPoint (mk_point ''mix'' 2 0 0 False True False)
     (createOtherWord (mk_point ''queen'' 1 0 0 False False True)
        (centerOnBaseWord (\<lambda>x. x) (mk_point ''king'' 1 2 3 True False False) king_scene))"
  by (simp add: mix_scene_def mix_batch_def mk_batch_def addWordsProgressively_def
      append_points_def otherWords_of_def Let_def has_def king_scene_def[symmetric]
      king_scene_fields centerOnBaseWord_eq createOtherWord_eq)

lemma mix_scene_fields:
  "wordObjects mix_scene =
     [(''king'', king_entry),
      (''queen'', \<lparr>e_sphere = 8, e_text = 11, e_point = mk_point ''queen'' 1 0 0 False False True,
                   e_glow = Some (GlowPair 9 10)\<rparr>),
      (''current_mix'', mix_entry)]"
  "next_id mix_scene = 15"
  "scene mix_scene = [0, 1, 2, 3, 4, 5, 6, 7, 8, 9, 10, 11, 12, 13, 14]"
  by (simp_all add: mix_scene_steps mix_entry_def centerOnBaseWord_eq createOtherWord_eq
      createCurrentMixPoint_eq Let_def king_scene_fields)

lemma mix_scene_base: "currentBaseWord mix_scene = Some ''king''"
  by (simp add: mix_scene_steps centerOnBaseWord_eq createOtherWord_eq
      createCurrentMixPoint_eq Let_def king_scene_def createBaseWord_eq)

lemma mix_scene_glow: "is_glow (objects mix_scene i) = (i = 9 \<or> i = 10 \<or> i = 13)"
  by (simp add: mix_scene_steps centerOnBaseWord_eq createOtherWord_eq
      createCurrentMixPoint_eq Let_def king_scene_fields king_scene_glow)
    (simp add: is_glow_def createWordSphere_def createGlowSphere_def createTextMesh_def)

lemma mix_scene_cube:
  "geometry (objects mix_scene 13) = Some (BoxGeometry (1 / 4))"
  "map_option opacity (mat (objects mix_scene 13)) = Some (3 / 10)"
  "map_option transparent (mat (objects mix_scene 13)) = Some True"
  "mat (objects mix_scene 12) \<noteq> None" "mat (objects mix_scene 14) \<noteq> None"
  by (simp_all add: mix_scene_steps centerOnBaseWord_eq createOtherWord_eq
      createCurrentMixPoint_eq Let_def king_scene_fields createTextMesh_def)

lemma wf_mix_scene: "wf_scene mix_scene"
  unfolding mix_scene_def by (rule wf_addWordsProgressively[OF wf_initialize])

section \<open>Camera navigation\<close>

subsection \<open>The wheel\<close>

lemma onWheel_translated [simp]: "cameraTranslated (onWheel upd ev c) = cameraTranslated c"
  by (simp add: onWheel_def Let_def controls_update_def)

lemma onWheel_floor:
  assumes "\<not> cameraTranslated c"
    and "2 / 10 \<le> distanceTo (camera_position c) (controls_target c)"
    and "\<forall>p t. distanceTo (fst (upd (p, t))) (snd (upd (p, t))) = distanceTo p t"
  shows "2 / 10 \<le> distanceTo (camera_position (onWheel upd ev c)) (controls_target (onWheel upd ev c))"
  using assms by (auto simp: onWheel_def Let_def controls_update_def)

lemma wheel_ticks_floor:
  assumes "\<forall>p t. distanceTo (fst (upd (p, t))) (snd (upd (p, t))) = distanceTo p t"
  shows "\<not> cameraTranslated c \<Longrightarrow> 2 / 10 \<le> distanceTo (camera_position c) (controls_target c) \<Longrightarrow>
     \<not> cameraTranslated (wheel_ticks upd evs c) \<and>
     2 / 10 \<le> distanceTo (camera_position (wheel_ticks upd evs c)) (controls_target (wheel_ticks upd evs c))"
proof (induction evs arbitrary: c)
  case Nil
  then show ?case by (simp add: wheel_ticks_def)
next
  case (Cons ev evs)
  from Cons.prems onWheel_floor[OF Cons.prems assms, of ev]
  have "\<not> cameraTranslated (onWheel upd ev c)"
    "2 / 10 \<le> distanceTo (camera_position (onWheel upd ev c)) (controls_target (onWheel upd ev c))"
    by simp_all
  from Cons.IH[OF this] show ?case by (simp add: wheel_ticks_def)
qed

lemma wheel_in_newPosition: "wheel_newPosition wheel_in c =
   vec (vx (camera_position c) - 1 / 40) (vy (camera_position c)) (vz (camera_position c))"
  by (simp add: wheel_newPosition_def wheel_in_def Let_def)

text \<open>
  Claim C2 (orbit floor). In orbit mode, from a camera at least 0.2 from the orbit target,
  no sequence of wheel ticks brings the camera closer than 0.2: after every prefix of the
  ticks the distance is at least 0.2. A tick applies its move exactly when the new
  distance is larger than the current one or is at least 0.2, and otherwise returns the
  camera state as it was. The library's \<open>controls.update()\<close> is assumed to keep the distance
  between camera and target.
\<close>

theorem orbit_floor:
  assumes "\<not> cameraTranslated c"
    and "2 / 10 \<le> distanceTo (camera_position c) (controls_target c)"
    and "\<forall>p t. distanceTo (fst (upd (p, t))) (snd (upd (p, t))) = distanceTo p t"
  shows "(\<forall>n \<le> length evs.
            2 / 10 \<le> distanceTo (camera_position (wheel_ticks upd (take n evs) c))
                                 (controls_target (wheel_ticks upd (take n evs) c)))
       \<and> (\<forall>ev c'. \<not> cameraTranslated c' \<longrightarrow>
            onWheel upd ev c' =
              (if distanceTo (wheel_newPosition ev c') (controls_target c')
                     > distanceTo (camera_position c') (controls_target c')
                  \<or> distanceTo (wheel_newPosition ev c') (controls_target c') \<ge> 2 / 10
               then controls_update upd (c'\<lparr>camera_position := wheel_newPosition ev c'\<rparr>)
               else c'))"
proof (intro conjI allI impI)
  fix n
  show "2 / 10 \<le> distanceTo (camera_position (wheel_ticks upd (take n evs) c))
                                 (controls_target (wheel_ticks upd (take n evs) c))"
    using wheel_ticks_floor[OF assms(3) assms(1) assms(2), of "take n evs"] by simp
next
  fix ev :: wheel_event and c' :: camera_state
  assume "\<not> cameraTranslated c'"
  then show "onWheel upd ev c' =
              (if distanceTo (wheel_newPosition ev c') (controls_target c')
                     > distanceTo (camera_position c') (controls_target c')
                  \<or> distanceTo (wheel_newPosition ev c') (controls_target c') \<ge> 2 / 10
               then controls_update upd (c'\<lparr>camera_position := wheel_newPosition ev c'\<rparr>)
               else c')"
    by (simp add: onWheel_def Let_def)
qed

text \<open>Three ticks towards the target from distance 0.25: two are applied, the third is refused.\<close>

theorem orbit_floor_witness:
  "camera_position (wheel_ticks (\<lambda>x. x) [wheel_in, wheel_in, wheel_in] near_camera) = vec (1 / 5) 0 0
   \<and> 2 / 10 \<le> distanceTo (camera_position (wheel_ticks (\<lambda>x. x) [wheel_in, wheel_in, wheel_in] near_camera))
       (controls_target (wheel_ticks (\<lambda>x. x) [wheel_in, wheel_in, wheel_in] near_camera))"
proof -
  have d: "2 / 10 \<le> distanceTo (camera_position near_camera) (controls_target near_camera)"
    by (simp add: near_camera_def distanceTo_x)
  have t: "\<not> cameraTranslated near_camera" by (simp add: near_camera_def)
  have u: "\<forall>p t. distanceTo (fst ((\<lambda>x. x) (p, t))) (snd ((\<lambda>x. x) (p, t))) = distanceTo p t" by simp
  have "wheel_ticks (\<lambda>x. x) [wheel_in, wheel_in, wheel_in] near_camera
          = near_camera\<lparr>camera_position := vec (1 / 5) 0 0\<rparr>"
    by (simp add: wheel_ticks_def onWheel_def Let_def near_camera_def wheel_in_newPosition distanceTo_x
        controls_update_def)
  then show ?thesis
    using orbit_floor[OF t d u, of "[wheel_in, wheel_in, wheel_in]", THEN conjunct1, rule_format, of 3]
    by simp
qed

subsection \<open>Selecting a word\<close>

lemma controls_update_id [simp]: "controls_update (\<lambda>x. x) c = c"
  by (simp add: controls_update_def)

lemma controls_id: "\<forall>x. upd x = x \<Longrightarrow> upd = (\<lambda>x. x)"
  by auto

lemma animate_calls_frame:
  "c' \<in> set (animate_calls (\<lambda>x. x) st en es c) \<Longrightarrow>
     cameraTranslated c' = cameraTranslated c \<and> camera_position c' = camera_position c"
proof (induction es arbitrary: c)
  case Nil
  then show ?case by simp
next
  case (Cons e es)
  let ?c1 = "c\<lparr>controls_target := lerpVectors st en (easeProgress_of (min (e / 600) 1))\<rparr>"
  from Cons.prems
  have "c' = ?c1 \<or> c' \<in> set (animate_calls (\<lambda>x. x) st en es ?c1)"
    by (auto simp add: Let_def split: if_splits)
  then show ?case
  proof
    assume "c' = ?c1" then show ?thesis by simp
  next
    assume "c' \<in> set (animate_calls (\<lambda>x. x) st en es ?c1)"
    from Cons.IH[OF this] show ?thesis by simp
  qed
qed

lemma animate_calls_target:
  "k < length (animate_calls (\<lambda>x. x) st en es c) \<Longrightarrow>
     controls_target (animate_calls (\<lambda>x. x) st en es c ! k)
        = lerpVectors st en (easeProgress_of (min (es ! k / 600) 1))
     \<and> (600 \<le> es ! k \<longrightarrow> Suc k = length (animate_calls (\<lambda>x. x) st en es c))"
proof (induction es arbitrary: c k)
  case Nil
  then show ?case by simp
next
  case (Cons e es)
  let ?c1 = "c\<lparr>controls_target := lerpVectors st en (easeProgress_of (min (e / 600) 1))\<rparr>"
  have unf: "animate_calls (\<lambda>x. x) st en (e # es) c =
      ?c1 # (if e / 600 < 1 then animate_calls (\<lambda>x. x) st en es ?c1 else [])"
    by (simp add: Let_def)
  show ?case
  proof (cases k)
    case 0
    then show ?thesis unfolding unf by auto
  next
    case (Suc j)
    with Cons.prems have lt: "e / 600 < 1" and j: "j < length (animate_calls (\<lambda>x. x) st en es ?c1)"
      unfolding unf by (auto split: if_splits)
    from Cons.IH[OF j] lt Suc show ?thesis
      unfolding unf by simp
  qed
qed

lemma lerpVectors_end [simp]: "lerpVectors a b 1 = b" "lerpVectors a b 0 = a"
  by (simp_all add: lerpVectors_def)

lemma easeProgress_values:
  "easeProgress_of 0 = 0" "easeProgress_of (1 / 4) = 1 / 8" "easeProgress_of (1 / 2) = 1 / 2"
  "easeProgress_of (3 / 4) = 15 / 16" "easeProgress_of 1 = 1"
  by (simp_all add: easeProgress_of_def power3_eq_cube)

text \<open>
  Claim C5 (selecting a word). For a word present in the map, \<open>pointCameraAtWord\<close> puts the
  camera in orbit mode and then only moves the orbit target: after the call of \<open>animate\<close>
  made \<open>elapsed\<close> milliseconds after the start, the target is the interpolation between its
  value at the start and the word's position at \<open>easeProgress_of (min (elapsed / 600) 1)\<close>,
  the camera position is the one before the selection, and the first call with
  \<open>elapsed \<ge> 600\<close> puts the target on the word and is the last. A single click whose ray
  hits the word's sphere, and a double click with a registered click handler, run the same
  animation. The easing is not linear (it is below the diagonal at 1/4 and above it at
  3/4). The library's \<open>controls.update()\<close> is assumed to leave position and target as they
  are.
\<close>

theorem select_word_animates_target:
  assumes "map_of (wordObjects s) w = Some wd" and "\<forall>x. upd x = x"
  shows "pointCameraAtWord upd e0 es w s \<noteq> []
    \<and> (\<forall>k < length (pointCameraAtWord upd e0 es w s).
          \<not> cameraTranslated (pointCameraAtWord upd e0 es w s ! k)
        \<and> camera_position (pointCameraAtWord upd e0 es w s ! k) = camera_position (cam s)
        \<and> controls_target (pointCameraAtWord upd e0 es w s ! k)
            = lerpVectors (controls_target (cam s)) (coords (e_point wd))
                (easeProgress_of (min ((e0 # es) ! k / 600) 1))
        \<and> (600 \<le> (e0 # es) ! k \<longrightarrow>
              controls_target (pointCameraAtWord upd e0 es w s ! k) = coords (e_point wd)
            \<and> Suc k = length (pointCameraAtWord upd e0 es w s)))
    \<and> (findWordBySphere sp s = Some w \<and> w \<noteq> [] \<longrightarrow>
          handleSingleClick upd (Some sp) e0 es s = pointCameraAtWord upd e0 es w s)
    \<and> (findWordBySphere sp s = Some w \<and> w \<noteq> [] \<and> clickHandler s \<longrightarrow>
          handleDoubleClick upd (Some sp) e0 es s = pointCameraAtWord upd e0 es w s)
    \<and> easeProgress_of 0 = 0 \<and> easeProgress_of (1 / 4) = 1 / 8 \<and> easeProgress_of (1 / 2) = 1 / 2
    \<and> easeProgress_of (3 / 4) = 15 / 16 \<and> easeProgress_of 1 = 1"
proof -
  note u = controls_id[OF assms(2)]
  let ?c3 = "(cam s)\<lparr>cameraTranslated := False, initialCameraPosition := camera_position (cam s),
                    initialCameraTarget := coords (e_point wd)\<rparr>"
  let ?tr = "animate_calls (\<lambda>x. x) (controls_target (cam s)) (coords (e_point wd)) (e0 # es) ?c3"
  have tr: "pointCameraAtWord upd e0 es w s = ?tr"
    using assms(1) unfolding u by (simp add: pointCameraAtWord_def animateCameraTarget_def Let_def)
  have ne: "?tr \<noteq> []" by (simp add: Let_def)
  have steps: "\<not> cameraTranslated (?tr ! k) \<and> camera_position (?tr ! k) = camera_position (cam s)
        \<and> controls_target (?tr ! k)
            = lerpVectors (controls_target (cam s)) (coords (e_point wd))
                (easeProgress_of (min ((e0 # es) ! k / 600) 1))
        \<and> (600 \<le> (e0 # es) ! k \<longrightarrow>
              controls_target (?tr ! k) = coords (e_point wd) \<and> Suc k = length ?tr)"
    if k: "k < length ?tr" for k
  proof -
    from k have "?tr ! k \<in> set ?tr" by (rule nth_mem)
    from animate_calls_frame[OF this]
    have f: "\<not> cameraTranslated (?tr ! k)" "camera_position (?tr ! k) = camera_position (cam s)"
      by simp_all
    from animate_calls_target[OF k]
    have t: "controls_target (?tr ! k)
            = lerpVectors (controls_target (cam s)) (coords (e_point wd))
                (easeProgress_of (min ((e0 # es) ! k / 600) 1))"
      and l: "600 \<le> (e0 # es) ! k \<longrightarrow> Suc k = length ?tr"
      by blast+
    have "controls_target (?tr ! k) = coords (e_point wd)" if "600 \<le> (e0 # es) ! k"
    proof -
      from that have "min ((e0 # es) ! k / 600) 1 = 1" by simp
      with t show ?thesis by (simp add: easeProgress_values)
    qed
    with f t l show ?thesis by blast
  qed
  have single: "handleSingleClick upd (Some sp) e0 es s = pointCameraAtWord upd e0 es w s"
    if "findWordBySphere sp s = Some w \<and> w \<noteq> []"
    using that by (simp add: handleSingleClick_def)
  have double: "handleDoubleClick upd (Some sp) e0 es s = pointCameraAtWord upd e0 es w s"
    if "findWordBySphere sp s = Some w \<and> w \<noteq> [] \<and> clickHandler s"
    using that assms(1)
    by (simp add: handleDoubleClick_def pointCameraAtWord_def animateCameraTarget_def Let_def)
  from ne steps single double show ?thesis
    unfolding tr by (simp add: easeProgress_values)
qed

text \<open>Selecting the word at (1, 2, 3) from the initial camera, with calls of \<open>animate\<close> at
  0, 300 and 600 milliseconds (a fourth at 900 is never made).\<close>

theorem select_word_animates_target_witness:
  "map_of (wordObjects king_scene) ''king'' = Some king_entry
   \<and> map controls_target (pointCameraAtWord (\<lambda>x. x) 0 [300, 600, 900] ''king'' king_scene)
       = [vec 0 0 0, vec (1 / 2) 1 (3 / 2), vec 1 2 3]
   \<and> \<not> cameraTranslated (pointCameraAtWord (\<lambda>x. x) 0 [300, 600, 900] ''king'' king_scene ! 2)
   \<and> camera_position (pointCameraAtWord (\<lambda>x. x) 0 [300, 600, 900] ''king'' king_scene ! 2)
       = vec 3 3 3"
proof -
  have k: "map_of (wordObjects king_scene) ''king'' = Some king_entry"
    by (simp add: king_scene_fields)
  have u: "\<forall>x::vec3 \<times> vec3. (\<lambda>x. x) x = x" by simp
  have tr: "map controls_target (pointCameraAtWord (\<lambda>x. x) 0 [300, 600, 900] ''king'' king_scene)
       = [vec 0 0 0, vec (1 / 2) 1 (3 / 2), vec 1 2 3]"
    by (simp add: pointCameraAtWord_def animateCameraTarget_def k king_entry_def Let_def
        king_scene_fields easeProgress_of_def lerpVectors_def power3_eq_cube)
  then have "length (pointCameraAtWord (\<lambda>x. x) 0 [300, 600, 900] ''king'' king_scene) = 3"
    by (metis length_map length_Cons list.size(3) numeral_3_eq_3)
  then have "2 < length (pointCameraAtWord (\<lambda>x. x) 0 [300, 600, 900] ''king'' king_scene)" by simp
  with select_word_animates_target[OF k u, of 0 "[300, 600, 900]"]
  have "\<not> cameraTranslated (pointCameraAtWord (\<lambda>x. x) 0 [300, 600, 900] ''king'' king_scene ! 2)
     \<and> camera_position (pointCameraAtWord (\<lambda>x. x) 0 [300, 600, 900] ''king'' king_scene ! 2)
         = camera_position (cam king_scene)"
    by blast
  with k tr show ?thesis by (simp add: king_scene_fields)
qed

subsection \<open>Resize\<close>

text \<open>
  Claim C9 (resize of a zero-area container), as the code has it: \<open>onWindowResize\<close> has no
  guard. Every resize sets the aspect to \<open>width / height\<close> as JavaScript computes it
  (\<open>Infinity\<close> for a zero height and a positive width, \<open>NaN\<close> when both are zero) and the
  renderer size to the reported dimensions; a later resize with positive dimensions sets
  a finite positive aspect again.
\<close>

theorem onWindowResize_unguarded:
  "camera_aspect (cam (onWindowResize w h s)) =
      (if h = 0 then (if w = 0 then NaN else PosInfinity) else Finite (real w / real h))
   \<and> renderer_size (onWindowResize w h s) = (w, h)
   \<and> (0 < w' \<and> 0 < h' \<longrightarrow>
        camera_aspect (cam (onWindowResize w' h' (onWindowResize w h s))) = Finite (real w' / real h')
        \<and> 0 < real w' / real h')"
  by (simp add: onWindowResize_def js_div_def)

theorem onWindowResize_unguarded_witness:
  "camera_aspect (cam (onWindowResize 1024 768 (onWindowResize 800 0 (initialize 800 600)))) = Finite (4 / 3)"
  using onWindowResize_unguarded[of 800 0 "initialize 800 600" 1024 768] by simp

text \<open>The claim as stated fails: a resize to 800 by 0 is not skipped, it replaces the aspect 4/3 by \<open>Infinity\<close>.\<close>

theorem onWindowResize_zero_height:
  "camera_aspect (cam (onWindowResize 800 0 (initialize 800 600))) = PosInfinity
   \<and> renderer_size (onWindowResize 800 0 (initialize 800 600)) = (800, 0)
   \<and> camera_aspect (cam (initialize 800 600)) = Finite (4 / 3)"
  by (simp add: onWindowResize_def js_div_def initialize_def)

section \<open>Ingestion\<close>

subsection \<open>Missing or empty data\<close>

text \<open>
  Claim C3 (missing or empty batch), as the code has it: with missing data or an empty
  list of points, \<open>addWordsProgressively\<close> and \<open>addWordsProgressivelyAligned\<close> return the
  state unchanged; \<open>updateVisualization\<close> has already cleared the word objects when it
  tests its argument, so it acts as \<open>clearWordObjects\<close>: the map is emptied and the camera
  is left as it was. No operation fails.
\<close>

theorem ingest_missing_or_empty:
  assumes "missing_or_empty data"
  shows "addWordsProgressively upd data s = s
       \<and> addWordsProgressivelyAligned upd data w s = s
       \<and> updateVisualization upd data s = clearWordObjects s
       \<and> cam (updateVisualization upd data s) = cam s
       \<and> wordObjects (updateVisualization upd data s) = []"
  using assms
  by (auto simp: missing_or_empty_def addWordsProgressively_def addWordsProgressivelyAligned_def
      updateVisualization_def clearWordObjects_eq split: option.splits)

theorem ingest_missing_or_empty_witness:
  "missing_or_empty (mk_batch [])
   \<and> addWordsProgressively (\<lambda>x. x) (mk_batch [])
        (createOtherWord (mk_point ''queen'' 1 2 3 False False False) (initialize 800 600))
       = createOtherWord (mk_point ''queen'' 1 2 3 False False False) (initialize 800 600)"
  using ingest_missing_or_empty[of "mk_batch []" "\<lambda>x. x" "createOtherWord (mk_point ''queen'' 1 2 3 False False False) (initialize 800 600)"]
  by (simp add: missing_or_empty_def mk_batch_def)

text \<open>The claim as stated fails for \<open>updateVisualization\<close>: called without data on a scene that shows one word, it removes the word.\<close>

theorem updateVisualization_missing_clears:
  "wordObjects (createOtherWord (mk_point ''queen'' 1 2 3 False False False) (initialize 800 600)) \<noteq> []
   \<and> wordObjects (updateVisualization (\<lambda>x. x) None
        (createOtherWord (mk_point ''queen'' 1 2 3 False False False) (initialize 800 600))) = []
   \<and> scene (createOtherWord (mk_point ''queen'' 1 2 3 False False False) (initialize 800 600))
        = [0, 1, 2, 3, 4, 5, 6, 7]
   \<and> scene (updateVisualization (\<lambda>x. x) None
        (createOtherWord (mk_point ''queen'' 1 2 3 False False False) (initialize 800 600)))
        = [0, 1, 2, 3, 4, 5]"
  by (simp add: updateVisualization_def clearWordObjects_eq createOtherWord_eq Let_def
      entry_handles_def is_glow_def)

subsection \<open>The progressive append\<close>

text \<open>
  Claim C4 (frame of the progressive append), as the code has it. \<open>addWordsProgressively\<close>
  modifies no object that exists before the call and keeps every map entry that exists
  before the call; every entry it adds holds a point of the batch, with its sphere at the
  point's coordinates. The camera state is unchanged when the batch has no anchor point or
  the anchor's word is already present; when the batch brings a new anchor, the call
  centres on it: the orbit target becomes the anchor's coordinates and the camera is put
  at that position plus (3, 3, 3), before \<open>controls.update()\<close>.
\<close>

theorem progressive_append_frame:
  assumes "data = Some d" and "points d = Some pts"
  shows "(\<forall>i < next_id s. objects (addWordsProgressively upd data s) i = objects s i)
   \<and> (\<forall>w e. map_of (wordObjects s) w = Some e \<longrightarrow>
         map_of (wordObjects (addWordsProgressively upd data s)) w = Some e)
   \<and> (\<forall>w e. map_of (wordObjects s) w = None
            \<and> map_of (wordObjects (addWordsProgressively upd data s)) w = Some e \<longrightarrow>
         e_point e \<in> set pts
       \<and> position (objects (addWordsProgressively upd data s) (e_sphere e)) = coords (e_point e))
   \<and> ((\<forall>b. find is_base pts = Some b \<longrightarrow> has s (word b)) \<longrightarrow>
         cam (addWordsProgressively upd data s) = cam s)
   \<and> (\<forall>b. find is_base pts = Some b \<and> \<not> has s (word b) \<longrightarrow>
         cam (addWordsProgressively upd data s) =
           controls_update upd ((cam s)
             \<lparr>controls_target := coords b,
              camera_position := vec (px b + 3) (py b + 3) (pz b + 3),
              initialCameraPosition := vec (px b + 3) (py b + 3) (pz b + 3),
              initialCameraTarget := coords b\<rparr>))"
proof (cases "pts = []")
  case True
  with assms show ?thesis by (auto simp: addWordsProgressively_def)
next
  case False
  with assms have eq: "addWordsProgressively upd data s = append_points upd pts s"
    by (simp add: addWordsProgressively_def)
  have g: "grows (\<lambda>w q. q \<in> set pts) s (append_points upd pts s)"
    by (rule append_points_grows)
  show ?thesis
    unfolding eq
  proof (intro conjI allI impI)
    fix i assume "i < next_id s"
    with g show "objects (append_points upd pts s) i = objects s i" by (simp add: grows_def)
  next
    fix w e assume "map_of (wordObjects s) w = Some e"
    with g show "map_of (wordObjects (append_points upd pts s)) w = Some e" by (simp add: grows_def)
  next
    fix w e
    assume a: "map_of (wordObjects s) w = None \<and> map_of (wordObjects (append_points upd pts s)) w = Some e"
    with g show "e_point e \<in> set pts"
      and "position (objects (append_points upd pts s) (e_sphere e)) = coords (e_point e)"
      unfolding grows_def by blast+
  next
    assume "\<forall>b. find is_base pts = Some b \<longrightarrow> has s (word b)"
    then show "cam (append_points upd pts s) = cam s"
      by (simp add: append_points_cam split: option.splits)
  next
    fix b assume "find is_base pts = Some b \<and> \<not> has s (word b)"
    then show "cam (append_points upd pts s) = controls_update upd ((cam s)
             \<lparr>controls_target := coords b,
              camera_position := vec (px b + 3) (py b + 3) (pz b + 3),
              initialCameraPosition := vec (px b + 3) (py b + 3) (pz b + 3),
              initialCameraTarget := coords b\<rparr>)"
      by (simp add: append_points_cam centerOnBaseWord_eq)
  qed
qed

theorem progressive_append_frame_witness:
  "cam (addWordsProgressively (\<lambda>x. x) (mk_batch royal_points) king_scene) = cam king_scene
   \<and> objects (addWordsProgressively (\<lambda>x. x) (mk_batch royal_points) king_scene) 6
       = objects king_scene 6
   \<and> map_of (wordObjects (addWordsProgressively (\<lambda>x. x) (mk_batch royal_points) king_scene)) ''king''
       = Some king_entry"
proof -
  let ?d = "\<lparr>points = Some royal_points, word_count = length royal_points, is_complete = True\<rparr>"
  have h1: "mk_batch royal_points = Some ?d" by (simp add: mk_batch_def)
  have h2: "points ?d = Some royal_points" by simp
  have b: "\<forall>b. find is_base royal_points = Some b \<longrightarrow> has king_scene (word b)"
    by (simp add: royal_find has_def king_scene_fields)
  have i: "6 < next_id king_scene" by (simp add: king_scene_fields)
  have k: "map_of (wordObjects king_scene) ''king'' = Some king_entry"
    by (simp add: king_scene_fields)
  from progressive_append_frame[OF h1 h2, of king_scene "\<lambda>x. x"] b i k show ?thesis by blast
qed

text \<open>The claim as stated fails: a first batch with the anchor at (1, 2, 3) moves the camera
  from (3, 3, 3) to (4, 5, 6) and the orbit target from the origin to (1, 2, 3).\<close>

theorem progressive_append_recentres_camera:
  "camera_position (cam (initialize 800 600)) = vec 3 3 3
   \<and> controls_target (cam (initialize 800 600)) = vec 0 0 0
   \<and> camera_position (cam (addWordsProgressively (\<lambda>x. x)
        (mk_batch [mk_point ''king'' 1 2 3 True False False]) (initialize 800 600))) = vec 4 5 6
   \<and> controls_target (cam (addWordsProgressively (\<lambda>x. x)
        (mk_batch [mk_point ''king'' 1 2 3 True False False]) (initialize 800 600))) = vec 1 2 3"
  by (simp add: addWordsProgressively_def mk_batch_def append_points_cam has_def
      centerOnBaseWord_eq)

text \<open>
  Claim C8 (idempotent ingestion), as the code has it. From a well-formed scene, take a
  word (or the mix-marker key) that has an entry after a first \<open>addWordsProgressively\<close>.
  After a second one, on any data, the map holds the same entry under that key and no
  other entry under it, the entry's body and label are each in the scene exactly once, no
  other entry shares a handle with it, and none of its objects (body, label, glow) has
  been modified. Its glow objects are in the scene as before when the second batch brings
  no new anchor; the creation of a new anchor sweeps them out of the scene. Ingesting the
  same data twice changes nothing the second time.
\<close>

theorem progressive_append_idempotent:
  assumes "wf_scene s"
    and "map_of (wordObjects (addWordsProgressively upd data1 s)) w = Some e"
  shows "let s1 = addWordsProgressively upd data1 s; s2 = addWordsProgressively upd data2 s1
         in map_of (wordObjects s2) w = Some e
          \<and> length (filter (\<lambda>kv. fst kv = w) (wordObjects s2)) = 1
          \<and> count_list (scene s2) (e_sphere e) = 1
          \<and> count_list (scene s2) (e_text e) = 1
          \<and> (\<forall>k e'. k \<noteq> w \<and> map_of (wordObjects s2) k = Some e' \<longrightarrow>
                set (entry_handles e') \<inter> set (entry_handles e) = {})
          \<and> (\<forall>i \<in> set (entry_handles e). objects s2 i = objects s1 i)
          \<and> ((\<forall>d pts b. data2 = Some d \<and> points d = Some pts \<and> find is_base pts = Some b
                 \<longrightarrow> has s1 (word b)) \<longrightarrow>
               (\<forall>g \<in> set (glow_handles e). (g \<in> set (scene s2)) = (g \<in> set (scene s1))))
          \<and> (data2 = data1 \<longrightarrow> s2 = s1)"
proof -
  let ?s1 = "addWordsProgressively upd data1 s"
  let ?s2 = "addWordsProgressively upd data2 ?s1"
  have wf1: "wf_scene ?s1" using assms(1) by (rule wf_addWordsProgressively)
  then have wf2: "wf_scene ?s2" by (rule wf_addWordsProgressively)
  have g: "grows (\<lambda>w q. True) ?s1 ?s2" by (rule addWordsProgressively_grows)
  from g assms(2) have e2: "map_of (wordObjects ?s2) w = Some e" unfolding grows_def by blast
  from wf2 have "distinct (map fst (wordObjects ?s2))" by (simp add: wf_scene_def)
  from distinct_key_count[OF this e2]
  have one: "length (filter (\<lambda>kv. fst kv = w) (wordObjects ?s2)) = 1" .
  from wf2 e2 have "distinct (scene ?s2)" "e_sphere e \<in> set (scene ?s2)" "e_text e \<in> set (scene ?s2)"
    unfolding wf_scene_def by blast+
  then have cnt: "count_list (scene ?s2) (e_sphere e) = 1" "count_list (scene ?s2) (e_text e) = 1"
    by (simp_all add: distinct_count_1)
  from wf2 e2 have disj: "\<forall>k e'. k \<noteq> w \<and> map_of (wordObjects ?s2) k = Some e' \<longrightarrow>
                set (entry_handles e') \<inter> set (entry_handles e) = {}"
    unfolding wf_scene_def by blast
  from wf1 assms(2) have hb: "\<forall>i \<in> set (entry_handles e). i < next_id ?s1"
    unfolding wf_scene_def by blast
  with g have objs: "\<forall>i \<in> set (entry_handles e). objects ?s2 i = objects ?s1 i"
    unfolding grows_def by blast
  have glow: "\<forall>g \<in> set (glow_handles e). (g \<in> set (scene ?s2)) = (g \<in> set (scene ?s1))"
    if nb: "\<forall>d pts b. data2 = Some d \<and> points d = Some pts \<and> find is_base pts = Some b
                 \<longrightarrow> has ?s1 (word b)"
  proof -
    have "appended ?s1 ?s2"
      using nb by (auto simp: addWordsProgressively_def[of upd data2] appended_refl
          intro: appended_append_points split: option.splits)
    then obtain xs where xs: "scene ?s2 = scene ?s1 @ xs" "\<forall>i \<in> set xs. next_id ?s1 \<le> i"
      unfolding appended_def by blast
    from hb have "\<forall>g \<in> set (glow_handles e). g < next_id ?s1"
      by (simp add: entry_handles_glow)
    with xs show ?thesis by fastforce
  qed
  have same: "data2 = data1 \<Longrightarrow> ?s2 = ?s1" by (simp add: addWordsProgressively_twice)
  from e2 one cnt disj objs glow same show ?thesis
    unfolding Let_def by blast
qed

text \<open>A second batch that reports the word \<open>queen\<close> elsewhere and with another role leaves
  its entry as it is.\<close>

theorem progressive_append_idempotent_witness:
  "wf_scene (initialize 800 600)
   \<and> map_of (wordObjects queen_scene) ''queen'' = Some queen_entry
   \<and> map_of (wordObjects (addWordsProgressively (\<lambda>x. x)
          (mk_batch [mk_point ''queen'' 9 9 9 False False False]) queen_scene)) ''queen''
       = Some queen_entry
   \<and> count_list (scene (addWordsProgressively (\<lambda>x. x)
          (mk_batch [mk_point ''queen'' 9 9 9 False False False]) queen_scene)) 6 = 1
   \<and> addWordsProgressively (\<lambda>x. x) queen_batch queen_scene = queen_scene"
proof -
  have q: "map_of (wordObjects (addWordsProgressively (\<lambda>x. x) queen_batch (initialize 800 600))) ''queen''
      = Some queen_entry"
    using queen_scene_fields(1) by (simp add: queen_scene_def)
  have s: "e_sphere queen_entry = 6" by (simp add: queen_entry_def)
  from progressive_append_idempotent[OF wf_initialize q, of "mk_batch [mk_point ''queen'' 9 9 9 False False False]"]
    progressive_append_idempotent[OF wf_initialize q, of queen_batch] wf_initialize[of 800 600] q s
  show ?thesis
    unfolding Let_def queen_scene_def[symmetric] by metis
qed

text \<open>The claim as stated fails for the glow, which is part of a neighbour's styling: after a
  second batch that brings the anchor \<open>king\<close>, the two glow spheres of \<open>queen\<close> (handles
  7 and 8) are no longer in the scene.\<close>

theorem progressive_append_sweeps_glow:
  "map_of (wordObjects queen_scene) ''queen'' = Some queen_entry
   \<and> map_of (wordObjects (addWordsProgressively (\<lambda>x. x) king_queen_batch queen_scene)) ''queen''
       = Some queen_entry
   \<and> e_glow queen_entry = Some (GlowPair 7 8)
   \<and> 7 \<in> set (scene queen_scene) \<and> 8 \<in> set (scene queen_scene)
   \<and> scene (addWordsProgressively (\<lambda>x. x) king_queen_batch queen_scene)
       = [0, 1, 2, 3, 4, 5, 6, 9, 10, 11]"
  by (simp add: king_queen_batch_def mk_batch_def addWordsProgressively_def append_points_def
      otherWords_of_def Let_def has_def queen_scene_fields createBaseWord_scene
      queen_scene_glow centerOnBaseWord_eq createBaseWord_eq update_conv')
    (simp add: queen_entry_def)

subsection \<open>The aligned append\<close>

text \<open>
  Claim C7 (fallback of the aligned append). When the anchor word has no entry in the map,
  \<open>addWordsProgressivelyAligned\<close> returns what \<open>addWordsProgressively\<close> returns on the same
  data; both are total functions, so the batch is not failed.
\<close>

theorem aligned_fallback: "map_of (wordObjects s) anchor = None \<Longrightarrow>
   addWordsProgressivelyAligned upd data anchor s = addWordsProgressively upd data s"
  by (simp add: addWordsProgressivelyAligned_def addWordsProgressively_def split: option.splits)

theorem aligned_fallback_witness:
  "map_of (wordObjects (initialize 800 600)) ''king'' = None
   \<and> addWordsProgressivelyAligned (\<lambda>x. x) (mk_batch [mk_point ''queen'' 1 2 3 False False False]) ''king''
         (initialize 800 600)
     = addWordsProgressively (\<lambda>x. x) (mk_batch [mk_point ''queen'' 1 2 3 False False False])
         (initialize 800 600)"
  using aligned_fallback[of "initialize 800 600" "''king''" "\<lambda>x. x" "mk_batch [mk_point ''queen'' 1 2 3 False False False]"]
  by simp

lemma maxDistance_of_distanceTo:
  "maxDistance_of ps c = fold (\<lambda>p m. max m (distanceTo (coords p) c)) ps 0"
  by (simp add: maxDistance_of_def distanceTo_def)

lemma maxDistance_upper: "p \<in> set ps \<Longrightarrow> distanceTo (coords p) c \<le> maxDistance_of ps c"
  unfolding maxDistance_of_distanceTo by (rule fold_max_upper)

lemma maxDistance_attained:
  assumes "ps \<noteq> []"
  shows "\<exists>p \<in> set ps. distanceTo (coords p) c = maxDistance_of ps c"
proof -
  from fold_max_attained[of "\<lambda>p. distanceTo (coords p) c" ps 0]
  consider "maxDistance_of ps c = 0" | "\<exists>p \<in> set ps. maxDistance_of ps c = distanceTo (coords p) c"
    unfolding maxDistance_of_distanceTo by blast
  then show ?thesis
  proof cases
    case 1
    from assms obtain p where p: "p \<in> set ps" by (cases ps) auto
    from maxDistance_upper[OF p, of c] 1 have "distanceTo (coords p) c = 0"
      using distanceTo_nonneg[of "coords p" c] by linarith
    with 1 p show ?thesis by auto
  next
    case 2
    then show ?thesis by auto
  qed
qed

lemma maxDistance_pos:
  assumes "p \<in> set ps" "q \<in> set ps" "coords p \<noteq> coords q"
  shows "0 < maxDistance_of ps c"
proof -
  from assms(3) have "coords p \<noteq> c \<or> coords q \<noteq> c" by auto
  then obtain r where r: "r \<in> set ps" "coords r \<noteq> c" using assms(1,2) by auto
  then have "distanceTo (coords r) c \<noteq> 0" using distanceTo_eq_0 by blast
  then have "0 < distanceTo (coords r) c"
    using distanceTo_nonneg[of "coords r" c] by linarith
  with maxDistance_upper[OF r(1), of c] show ?thesis by linarith
qed

lemma aligned_sel [simp]:
  "word (aligned c k ex p) = word p"
  "is_base (aligned c k ex p) = is_base p"
  "is_mix (aligned c k ex p) = is_mix p"
  "is_neighbor (aligned c k ex p) = is_neighbor p"
  "px (aligned c k ex p) = (px p - vx c) * k + px ex"
  "py (aligned c k ex p) = (py p - vy c) * k + py ex"
  "pz (aligned c k ex p) = (pz p - vz c) * k + pz ex"
  by (simp_all add: aligned_def)

lemma aligned_distance:
  "distanceTo (coords (aligned c k ex p)) (coords ex) = \<bar>k\<bar> * distanceTo (coords p) c"
  by (simp add: distanceTo_def power_mult_distrib sqrt_sq3)

lemma centroid_mean:
  "ps \<noteq> [] \<Longrightarrow> centroid ps = vec (sum_list (map px ps) / real (length ps))
     (sum_list (map py ps) / real (length ps)) (sum_list (map pz ps) / real (length ps))"
  by (simp add: centroid_def Let_def fold_add_sum)

lemma align_points_grows:
  "grows (aligned_entry (otherWords_of pts) (centroid (otherWords_of pts))
            (scaleFactor_of (maxDistance_of (otherWords_of pts) (centroid (otherWords_of pts))))
            (e_point a))
     s (align_points pts a s)"
proof -
  let ?c = "centroid (otherWords_of pts)"
  let ?k = "scaleFactor_of (maxDistance_of (otherWords_of pts) ?c)"
  let ?ex = "e_point a"
  let ?Q = "aligned_entry (otherWords_of pts) ?c ?k ?ex"
  let ?s1 = "case find is_base pts of None \<Rightarrow> s
                | Some b \<Rightarrow> if \<not> has s (word b)
                            then createBaseWord (b\<lparr>px := px ?ex, py := py ?ex, pz := pz ?ex\<rparr>) s
                            else s"
  let ?s2 = "fold (\<lambda>p t. if \<not> has t (word p) then createOtherWord (aligned ?c ?k ?ex p) t else t)
                  (otherWords_of pts) ?s1"
  have 1: "grows ?Q s ?s1"
  proof (cases "find is_base pts")
    case None
    then show ?thesis by (simp add: grows_refl)
  next
    case (Some b)
    then have "is_base b" by (simp add: find_SomeD)
    then have "?Q (word b) (b\<lparr>px := px ?ex, py := py ?ex, pz := pz ?ex\<rparr>)"
      by (simp add: aligned_entry_def)
    with Some grows_createBaseWord[OF grows_refl, of s "b\<lparr>px := px ?ex, py := py ?ex, pz := pz ?ex\<rparr>" ?Q]
    show ?thesis by (auto simp: grows_refl)
  qed
  have "\<forall>p \<in> set (otherWords_of pts). word (aligned ?c ?k ?ex p) = word p
          \<and> ?Q (word p) (aligned ?c ?k ?ex p)"
    by (auto simp: aligned_entry_def)
  from grows_fold_others[where f = "aligned ?c ?k ?ex" and Q = ?Q, OF this 1]
  have 2: "grows ?Q s ?s2" .
  have "grows ?Q s (case find is_mix pts of None \<Rightarrow> ?s2
         | Some m \<Rightarrow> if \<not> has ?s2 ''current_mix''
                     then createCurrentMixPoint (aligned ?c ?k ?ex m) ?s2 else ?s2)"
  proof (cases "find is_mix pts")
    case None
    with 2 show ?thesis by simp
  next
    case (Some m)
    then have "is_mix m" by (simp add: find_SomeD)
    then have "?Q ''current_mix'' (aligned ?c ?k ?ex m)" by (simp add: aligned_entry_def)
    with Some 2 grows_createCurrentMixPoint[OF 2, of "aligned ?c ?k ?ex m"] show ?thesis by auto
  qed
  then show ?thesis by (simp add: align_points_def Let_def)
qed

lemma align_points_has:
  "r \<in> set (otherWords_of pts) \<Longrightarrow> has (align_points pts a s) (word r)"
  by (auto simp: align_points_def Let_def has_fold_others has_createCurrentMixPoint split: option.splits)

text \<open>
  Claim C1 (aligned placement). When the anchor word has an entry and two of the batch's
  non-anchor, non-marker points differ in position, the largest distance \<open>m\<close> of such a
  point to their centroid \<open>c\<close> (the mean of their coordinates) is positive, and every entry
  that \<open>addWordsProgressivelyAligned\<close> adds for a non-anchor, non-marker point comes from a
  point \<open>r\<close> of the batch with that word and is placed at
  \<open>(r - c) * (4 / m) + existingPosition\<close>, which is \<open>4 * |r - c| / m\<close> away from the
  anchor's position: at most 4, and exactly 4 for a point at the largest distance. Such a
  point exists, and after the call every non-anchor, non-marker word of the batch has an
  entry. Numbers are reals, so the distances are exact.
\<close>

theorem aligned_placement:
  assumes "data = Some d" and "points d = Some pts"
    and "map_of (wordObjects s) anchor = Some a"
    and "p \<in> set (otherWords_of pts)" and "q \<in> set (otherWords_of pts)"
    and "coords p \<noteq> coords q"
  shows "let others = otherWords_of pts; c = centroid others; m = maxDistance_of others c;
             ex = e_point a; s' = addWordsProgressivelyAligned upd data anchor s
         in 0 < m
          \<and> c = vec (sum_list (map px others) / real (length others))
                    (sum_list (map py others) / real (length others))
                    (sum_list (map pz others) / real (length others))
          \<and> (\<forall>w e. map_of (wordObjects s) w = None \<and> map_of (wordObjects s') w = Some e
                   \<and> \<not> is_base (e_point e) \<and> \<not> is_mix (e_point e) \<longrightarrow>
                (\<exists>r \<in> set others. word r = w
                   \<and> px (e_point e) = (px r - vx c) * (4 / m) + px ex
                   \<and> py (e_point e) = (py r - vy c) * (4 / m) + py ex
                   \<and> pz (e_point e) = (pz r - vz c) * (4 / m) + pz ex
                   \<and> position (objects s' (e_sphere e)) = coords (e_point e)
                   \<and> distanceTo (position (objects s' (e_sphere e))) (coords ex)
                        = 4 * distanceTo (coords r) c / m
                   \<and> distanceTo (position (objects s' (e_sphere e))) (coords ex) \<le> 4
                   \<and> (distanceTo (coords r) c = m \<longrightarrow>
                        distanceTo (position (objects s' (e_sphere e))) (coords ex) = 4)))
          \<and> (\<exists>r \<in> set others. distanceTo (coords r) c = m)
          \<and> (\<forall>r \<in> set others. has s' (word r))"
proof -
  let ?others = "otherWords_of pts"
  let ?c = "centroid ?others"
  let ?m = "maxDistance_of ?others ?c"
  let ?ex = "e_point a"
  let ?s' = "align_points pts a s"
  from assms(4) have ne: "?others \<noteq> []" by auto
  then have pts: "pts \<noteq> []" by (auto simp: otherWords_of_def)
  with assms(1,2,3) have eq: "addWordsProgressivelyAligned upd data anchor s = ?s'"
    by (simp add: addWordsProgressivelyAligned_def)
  have m: "0 < ?m" using assms(4,5,6) by (rule maxDistance_pos)
  then have k: "scaleFactor_of ?m = 4 / ?m" by (simp add: scaleFactor_of_def)
  have g: "grows (aligned_entry ?others ?c (4 / ?m) ?ex) s ?s'"
    using align_points_grows[of pts a s] unfolding k .
  have new: "\<exists>r \<in> set ?others. word r = w
                   \<and> px (e_point e) = (px r - vx ?c) * (4 / ?m) + px ?ex
                   \<and> py (e_point e) = (py r - vy ?c) * (4 / ?m) + py ?ex
                   \<and> pz (e_point e) = (pz r - vz ?c) * (4 / ?m) + pz ?ex
                   \<and> position (objects ?s' (e_sphere e)) = coords (e_point e)
                   \<and> distanceTo (position (objects ?s' (e_sphere e))) (coords ?ex)
                        = 4 * distanceTo (coords r) ?c / ?m
                   \<and> distanceTo (position (objects ?s' (e_sphere e))) (coords ?ex) \<le> 4
                   \<and> (distanceTo (coords r) ?c = ?m \<longrightarrow>
                        distanceTo (position (objects ?s' (e_sphere e))) (coords ?ex) = 4)"
    if a: "map_of (wordObjects s) w = None \<and> map_of (wordObjects ?s') w = Some e
                   \<and> \<not> is_base (e_point e) \<and> \<not> is_mix (e_point e)" for w e
  proof -
    from g a have q: "aligned_entry ?others ?c (4 / ?m) ?ex w (e_point e)"
      and pos: "position (objects ?s' (e_sphere e)) = coords (e_point e)"
      unfolding grows_def by blast+
    from q a obtain r where r: "r \<in> set ?others" "word r = w"
      "e_point e = aligned ?c (4 / ?m) ?ex r"
      by (auto simp: aligned_entry_def)
    have d: "distanceTo (coords (e_point e)) (coords ?ex) = 4 * distanceTo (coords r) ?c / ?m"
      using m by (simp add: r(3) aligned_distance)
    have "distanceTo (coords r) ?c \<le> ?m" using r(1) by (rule maxDistance_upper)
    with m have le: "4 * distanceTo (coords r) ?c / ?m \<le> 4" by (simp add: field_simps)
    have "distanceTo (coords r) ?c = ?m \<Longrightarrow> 4 * distanceTo (coords r) ?c / ?m = 4"
      using m by simp
    with r d le pos show ?thesis by (intro bexI[of _ r]) simp_all
  qed
  have att: "\<exists>r \<in> set ?others. distanceTo (coords r) ?c = ?m"
    using ne by (rule maxDistance_attained)
  have hasall: "\<forall>r \<in> set ?others. has ?s' (word r)"
    by (simp add: align_points_has)
  from m centroid_mean[OF ne] new att hasall show ?thesis
    unfolding eq Let_def by blast
qed

lemma royal_queen:
  "map_of (wordObjects (align_points royal_points king_entry king_scene)) ''queen''
     = Some \<lparr>e_sphere = 8, e_text = 11,
             e_point = aligned (vec 0 0 0) 4 (e_point king_entry) (mk_point ''queen'' 1 0 0 False False True),
             e_glow = Some (GlowPair 9 10)\<rparr>"
  by (simp add: align_points_def Let_def royal_others royal_centroid royal_maxDistance royal_find
      scaleFactor_of_def has_def king_scene_fields createOtherWord_eq update_conv')

text \<open>The anchor at (1, 2, 3); a batch with two other points at (1, 0, 0) and (-1, 0, 0): the
  first is created at (5, 2, 3).\<close>

theorem aligned_placement_witness:
  "map_of (wordObjects king_scene) ''king'' = Some king_entry
   \<and> map_of (wordObjects (addWordsProgressivelyAligned (\<lambda>x. x) (mk_batch royal_points) ''king'' king_scene))
        ''queen''
     = Some \<lparr>e_sphere = 8, e_text = 11,
             e_point = aligned (vec 0 0 0) 4 (e_point king_entry) (mk_point ''queen'' 1 0 0 False False True),
             e_glow = Some (GlowPair 9 10)\<rparr>
   \<and> coords (aligned (vec 0 0 0) 4 (e_point king_entry) (mk_point ''queen'' 1 0 0 False False True))
       = vec 5 2 3
   \<and> distanceTo (position (objects
        (addWordsProgressivelyAligned (\<lambda>x. x) (mk_batch royal_points) ''king'' king_scene) 8))
        (coords (e_point king_entry)) \<le> 4"
proof -
  let ?d = "\<lparr>points = Some royal_points, word_count = length royal_points, is_complete = True\<rparr>"
  let ?queen = "mk_point ''queen'' 1 0 0 False False True"
  let ?prince = "mk_point ''prince'' (- 1) 0 0 False False False"
  let ?e = "\<lparr>e_sphere = 8, e_text = 11,
             e_point = aligned (vec 0 0 0) 4 (e_point king_entry) ?queen,
             e_glow = Some (GlowPair 9 10)\<rparr>"
  have h1: "mk_batch royal_points = Some ?d" by (simp add: mk_batch_def)
  have h2: "points ?d = Some royal_points" by simp
  have h3: "map_of (wordObjects king_scene) ''king'' = Some king_entry"
    by (simp add: king_scene_fields)
  have h4: "?queen \<in> set (otherWords_of royal_points)" by (simp add: royal_others)
  have h5: "?prince \<in> set (otherWords_of royal_points)" by (simp add: royal_others)
  have h6: "coords ?queen \<noteq> coords ?prince" by simp
  have eq: "addWordsProgressivelyAligned (\<lambda>x. x) (mk_batch royal_points) ''king'' king_scene
      = align_points royal_points king_entry king_scene"
    by (simp add: addWordsProgressivelyAligned_def mk_batch_def h3 royal_points_def)
  have new: "map_of (wordObjects king_scene) ''queen'' = None
     \<and> map_of (wordObjects (addWordsProgressivelyAligned (\<lambda>x. x) (mk_batch royal_points) ''king'' king_scene)) ''queen'' = Some ?e
     \<and> \<not> is_base (e_point ?e) \<and> \<not> is_mix (e_point ?e)"
    by (simp add: eq royal_queen king_scene_fields)
  from aligned_placement[OF h1 h2 h3 h4 h5 h6, of "\<lambda>x. x"] new
  have "distanceTo (position (objects
        (addWordsProgressivelyAligned (\<lambda>x. x) (mk_batch royal_points) ''king'' king_scene) (e_sphere ?e)))
        (coords (e_point king_entry)) \<le> 4"
    unfolding Let_def by blast
  with h3 new show ?thesis by (simp add: coords_def king_entry_def del: vec_coords)
qed

section \<open>Object lifecycle\<close>

subsection \<open>Clearing everything\<close>

text \<open>
  Claim C6 (glow cleanliness). After \<open>clearWordObjects\<close>, the scan of the scene for the
  highlight signature (a mesh with a transparent material of opacity at most 0.5 and a
  sphere or box geometry) finds nothing, the map is empty, and \<open>currentBaseWord\<close> and
  \<open>currentMixPoint\<close> are null.
\<close>

theorem clearWordObjects_no_highlights: "scan_highlights (clearWordObjects s) = [] \<and> wordObjects (clearWordObjects s) = []
  \<and> currentBaseWord (clearWordObjects s) = None \<and> currentMixPoint (clearWordObjects s) = None"
  by (simp add: clearWordObjects_eq scan_highlights_def is_glow_signature filter_empty_conv)

subsection \<open>Clearing all but one word\<close>

lemma new_object_text_eq:
  "scene_add (next_id s) (scene_remove old (set_renderOrder (next_id s) 1 (new_object ob s)))
     = s\<lparr>objects := (objects s)(next_id s := ob\<lparr>renderOrder := 1\<rparr>),
         next_id := Suc (next_id s),
         scene := remove1 old (scene s) @ [next_id s]\<rparr>"
  by (simp add: mesh_defs scene_remove_def)

lemma remove_others_eq:
  "remove_others keepWord s =
     s\<lparr>scene := fold remove1
          (concat (map (\<lambda>kv. entry_handles (snd kv))
             (filter (\<lambda>kv. fst kv \<noteq> keepWord \<and> fst kv \<noteq> ''current_mix'') (wordObjects s))))
          (scene s),
       wordObjects := filter (\<lambda>kv. fst kv = keepWord \<or> fst kv = ''current_mix'') (wordObjects s)\<rparr>"
proof -
  let ?P = "\<lambda>k. k \<noteq> keepWord \<and> k \<noteq> ''current_mix''"
  let ?doomed = "filter (\<lambda>kv. ?P (fst kv)) (wordObjects s)"
  have wo2: "fold AList.delete (map fst ?doomed) (wordObjects s)
       = filter (\<lambda>kv. fst kv = keepWord \<or> fst kv = ''current_mix'') (wordObjects s)"
    using doomed_delete[of ?P "wordObjects s"] by simp
  show ?thesis
    by (simp add: remove_others_def Let_def fold_remove_entry wo2)
qed

lemma restyle_kept_eq:
  assumes "map_of (wordObjects s) keepWord = Some e"
  shows "restyle_kept keepWord s =
    (let objs4 = (if mat (objects s (e_sphere e)) \<noteq> None
                  then (objects s)(e_sphere e := (objects s (e_sphere e))
                         \<lparr>mat := map_option (\<lambda>m. m\<lparr>color := 0xff0000\<rparr>) (mat (objects s (e_sphere e))),
                          scale := vec ((4 / 100) / (3 / 100)) ((4 / 100) / (3 / 100)) ((4 / 100) / (3 / 100))\<rparr>)
                  else objects s);
         sc5 = fold remove1 (glow_handles e) (scene s)
     in if mat (objs4 (e_text e)) \<noteq> None then
          (let objs6 = objs4(next_id s :=
                  (createTextMesh keepWord (coords (e_point e)) 0xff0000 (6 / 10) 1)\<lparr>renderOrder := 1\<rparr>)
           in s\<lparr>objects := objs6, next_id := Suc (next_id s),
                scene := filter (\<lambda>i. \<not> is_glow (objs6 i)) (remove1 (e_text e) sc5 @ [next_id s]),
                wordObjects := AList.update keepWord
                   \<lparr>e_sphere = e_sphere e, e_text = next_id s, e_point = e_point e, e_glow = None\<rparr>
                   (wordObjects s),
                currentBaseWord := Some keepWord\<rparr>)
        else s\<lparr>objects := objs4, scene := filter (\<lambda>i. \<not> is_glow (objs4 i)) sc5,
               currentBaseWord := Some keepWord\<rparr>)"
  unfolding restyle_kept_def
  by (simp add: assms Let_def clearAllGlowSpheres_eq remove_glow_handles mesh_defs scene_remove_def)

lemma doomed_handles_disjoint:
  assumes wf: "wf_scene s" and m: "map_of (wordObjects s) k = Some m"
    and k: "k = keepWord \<or> k = ''current_mix''"
  shows "set (entry_handles m) \<inter>
     set (concat (map (\<lambda>kv. entry_handles (snd kv))
        (filter (\<lambda>kv. fst kv \<noteq> keepWord \<and> fst kv \<noteq> ''current_mix'') (wordObjects s)))) = {}"
proof -
  have "set (entry_handles m) \<inter> set (entry_handles (snd kv)) = {}"
    if kv: "kv \<in> set (wordObjects s)" "fst kv \<noteq> keepWord \<and> fst kv \<noteq> ''current_mix''" for kv
  proof -
    from wf have d: "distinct (map fst (wordObjects s))" by (simp add: wf_scene_def)
    from kv(1) have "(fst kv, snd kv) \<in> set (wordObjects s)" by simp
    with d have "map_of (wordObjects s) (fst kv) = Some (snd kv)" by (simp only: map_of_eq_Some_iff)
    moreover from kv(2) k have "k \<noteq> fst kv" by auto
    ultimately show ?thesis using wf m unfolding wf_scene_def by blast
  qed
  then show ?thesis by auto
qed

lemma pre_restyle:
  assumes wf: "wf_scene s" and m: "map_of (wordObjects s) k = Some m"
    and k: "k = keepWord \<or> k = ''current_mix''"
  defines "s2 \<equiv> remove_others keepWord s"
  defines "s3 \<equiv> (if keepWord \<noteq> [] \<and> Some keepWord \<noteq> currentBaseWord s2
                then clearAllGlowSpheres s2 else s2)"
  shows "objects s3 = objects s" "next_id s3 = next_id s"
    "map_of (wordObjects s3) k = Some m"
    "e_sphere m \<in> set (scene s3)" "e_text m \<in> set (scene s3)"
proof -
  have o2: "objects s2 = objects s" "next_id s2 = next_id s"
    by (simp_all add: s2_def remove_others_eq)
  then show "objects s3 = objects s" "next_id s3 = next_id s"
    by (simp_all add: s3_def clearAllGlowSpheres_eq)
  have w2: "wordObjects s2 = filter (\<lambda>kv. fst kv = keepWord \<or> fst kv = ''current_mix'') (wordObjects s)"
    by (simp add: s2_def remove_others_eq)
  have "map_of (wordObjects s2) k = Some m"
    unfolding w2
    using m k map_of_filter_key[where P = "\<lambda>k. k = keepWord \<or> k = ''current_mix''", of "wordObjects s" k]
    by simp
  then show "map_of (wordObjects s3) k = Some m"
    by (simp add: s3_def clearAllGlowSpheres_eq)
  from wf m have hm: "e_sphere m \<in> set (scene s)" "e_text m \<in> set (scene s)"
    "\<not> is_glow (objects s (e_sphere m))" "\<not> is_glow (objects s (e_text m))"
    unfolding wf_scene_def by blast+
  let ?D = "concat (map (\<lambda>kv. entry_handles (snd kv))
        (filter (\<lambda>kv. fst kv \<noteq> keepWord \<and> fst kv \<noteq> ''current_mix'') (wordObjects s)))"
  from doomed_handles_disjoint[OF wf m k]
  have "e_sphere m \<notin> set ?D" "e_text m \<notin> set ?D"
    by (auto simp: entry_handles_glow)
  with hm have in2: "e_sphere m \<in> set (scene s2)" "e_text m \<in> set (scene s2)"
    by (simp_all add: s2_def remove_others_eq in_fold_remove1)
  with hm o2 show "e_sphere m \<in> set (scene s3)" "e_text m \<in> set (scene s3)"
    by (simp_all add: s3_def clearAllGlowSpheres_eq)
qed

lemma restyle_kept_no_glow:
  assumes "map_of (wordObjects t) keepWord = Some e"
  shows "is_glow (objects (restyle_kept keepWord t) x) \<Longrightarrow> x \<notin> set (scene (restyle_kept keepWord t))"
  unfolding restyle_kept_def
  by (simp only: assms option.case Let_def) (erule no_glow_after_sweep)

lemma restyle_kept_as_sweep:
  assumes "map_of (wordObjects t) keepWord = Some e"
    and "x \<in> set (scene t)" "x \<notin> set (glow_handles e)" "x \<noteq> e_text e"
  shows "\<exists>u. restyle_kept keepWord t = clearAllGlowSpheres u \<and> x \<in> set (scene u)"
proof -
  from assms(2,3) have 5: "x \<in> set (fold remove1 (glow_handles e) (scene t))" by (rule in_fold_remove1)
  with assms(4) have 6: "x \<in> set (remove1 (e_text e) (fold remove1 (glow_handles e) (scene t)))" by simp
  show ?thesis
    unfolding restyle_kept_def
    apply (simp only: assms(1) option.case Let_def)
    apply (rule exI, rule conjI, rule refl)
    using 5 6 by (simp add: mesh_defs scene_remove_def remove_glow_handles)
qed

lemma restyle_kept_props:
  assumes "map_of (wordObjects t) keepWord = Some e"
  shows "h \<noteq> e_sphere e \<Longrightarrow> h \<noteq> next_id t \<Longrightarrow> objects (restyle_kept keepWord t) h = objects t h"
    and "x \<in> set (scene t) \<Longrightarrow> x \<notin> set (glow_handles e) \<Longrightarrow> x \<noteq> e_text e \<Longrightarrow>
           \<not> is_glow (objects (restyle_kept keepWord t) x) \<Longrightarrow> x \<in> set (scene (restyle_kept keepWord t))"
    and "k \<noteq> keepWord \<Longrightarrow> map_of (wordObjects (restyle_kept keepWord t)) k = map_of (wordObjects t) k"
proof -
  note eq = restyle_kept_eq[OF assms]
  show "h \<noteq> e_sphere e \<Longrightarrow> h \<noteq> next_id t \<Longrightarrow> objects (restyle_kept keepWord t) h = objects t h"
    by (simp add: eq Let_def)
  show "k \<noteq> keepWord \<Longrightarrow> map_of (wordObjects (restyle_kept keepWord t)) k = map_of (wordObjects t) k"
    by (simp add: eq Let_def update_conv')
  assume x: "x \<in> set (scene t)" "x \<notin> set (glow_handles e)" "x \<noteq> e_text e"
    and ng: "\<not> is_glow (objects (restyle_kept keepWord t) x)"
  from restyle_kept_as_sweep[OF assms x]
  obtain u where u: "restyle_kept keepWord t = clearAllGlowSpheres u" "x \<in> set (scene u)" by blast
  from ng have "\<not> is_glow (objects u x)" by (simp add: u(1) clearAllGlowSpheres_eq)
  with u(2) show "x \<in> set (scene (restyle_kept keepWord t))"
    by (simp add: u(1) clearAllGlowSpheres_eq)
qed

text \<open>Clearing all but one word keeps the state well-formed.\<close>

lemma wf_remove_others: "wf_scene s \<Longrightarrow> wf_scene (remove_others keepWord s)"
proof (rule wf_shrink[where s = s])
  assume wf: "wf_scene s"
  let ?D = "concat (map (\<lambda>kv. entry_handles (snd kv))
        (filter (\<lambda>kv. fst kv \<noteq> keepWord \<and> fst kv \<noteq> ''current_mix'') (wordObjects s)))"
  from wf show "distinct (scene (remove_others keepWord s))"
    by (simp add: remove_others_eq wf_scene_def distinct_fold_remove1)
  show "set (scene (remove_others keepWord s)) \<subseteq> set (scene s)"
    by (simp add: remove_others_eq set_fold_remove1_subset)
  from wf show "distinct (map fst (wordObjects (remove_others keepWord s)))"
    by (simp add: remove_others_eq wf_scene_def distinct_map_filter)
  show "\<forall>k e. map_of (wordObjects (remove_others keepWord s)) k = Some e \<longrightarrow>
      map_of (wordObjects s) k = Some e \<and> e_sphere e \<in> set (scene (remove_others keepWord s))
      \<and> e_text e \<in> set (scene (remove_others keepWord s))"
  proof (intro allI impI)
    fix k e assume "map_of (wordObjects (remove_others keepWord s)) k = Some e"
    then have "map_of (filter (\<lambda>kv. fst kv = keepWord \<or> fst kv = ''current_mix'') (wordObjects s)) k = Some e"
      by (simp add: remove_others_eq)
    then have k: "k = keepWord \<or> k = ''current_mix''" and m: "map_of (wordObjects s) k = Some e"
      unfolding map_of_filter_key[where P = "\<lambda>k. k = keepWord \<or> k = ''current_mix''"]
      by (simp_all split: if_splits)
    from wf m have hm: "e_sphere e \<in> set (scene s)" "e_text e \<in> set (scene s)"
      unfolding wf_scene_def by blast+
    from doomed_handles_disjoint[OF wf m k]
    have "e_sphere e \<notin> set ?D" "e_text e \<notin> set ?D"
      by (auto simp: entry_handles_glow)
    with hm have "e_sphere e \<in> set (scene (remove_others keepWord s))"
      "e_text e \<in> set (scene (remove_others keepWord s))"
      by (simp_all add: remove_others_eq in_fold_remove1)
    with m show "map_of (wordObjects s) k = Some e \<and> e_sphere e \<in> set (scene (remove_others keepWord s))
      \<and> e_text e \<in> set (scene (remove_others keepWord s))" by simp
  qed
qed (simp_all add: remove_others_eq)

lemma wf_restyle_kept:
  assumes wf: "wf_scene t" and ke: "map_of (wordObjects t) keepWord = Some e"
  shows "wf_scene (restyle_kept keepWord t)"
proof -
  let ?t' = "restyle_kept keepWord t"
  note eq = restyle_kept_eq[OF ke]
  note props = restyle_kept_props[OF ke]
  from wf have b: "\<forall>i\<in>set (scene t). i < next_id t" and d: "distinct (scene t)"
    by (simp_all add: wf_scene_def)
  from wf ke have E: "distinct (entry_handles e)" "\<forall>i\<in>set (entry_handles e). i < next_id t"
    "e_sphere e \<in> set (scene t)" "e_text e \<in> set (scene t)"
    "\<not> is_glow (objects t (e_sphere e))" "\<not> is_glow (objects t (e_text e))"
    "\<forall>g\<in>set (glow_handles e). is_glow (objects t g)"
    unfolding wf_scene_def by blast+
  from E(1,2) have ne: "e_sphere e \<noteq> e_text e" "e_sphere e \<notin> set (glow_handles e)"
    "e_text e \<notin> set (glow_handles e)" "e_sphere e \<noteq> next_id t" "e_text e \<noteq> next_id t"
    "\<forall>g\<in>set (glow_handles e). g < next_id t" "distinct (glow_handles e)"
    by (auto simp: entry_handles_glow)
  define e' where "e' = (if mat (objects t (e_text e)) \<noteq> None
     then \<lparr>e_sphere = e_sphere e, e_text = next_id t, e_point = e_point e, e_glow = None\<rparr> else e)"
  have e'_sphere: "e_sphere e' = e_sphere e" by (simp add: e'_def)
  have e'_handles: "set (entry_handles e') \<subseteq> insert (next_id t) (set (entry_handles e))"
    by (auto simp: e'_def entry_handles_def)
  have d5: "distinct (fold remove1 (glow_handles e) (scene t))"
    using d by (rule distinct_fold_remove1)
  have s5: "set (fold remove1 (glow_handles e) (scene t)) \<subseteq> set (scene t)"
    by (rule set_fold_remove1_subset)
  with b have n5: "next_id t \<notin> set (fold remove1 (glow_handles e) (scene t))" by auto
  from s5 b have b5: "\<forall>i\<in>set (fold remove1 (glow_handles e) (scene t)). i < next_id t" by auto
  have t5: "e_text e \<in> set (fold remove1 (glow_handles e) (scene t))"
    using E(4) ne(3) by (rule in_fold_remove1)
  have osph: "\<not> is_glow (objects ?t' (e_sphere e))"
    using E(5) ne(4) by (simp add: eq Let_def)
  have sph: "e_sphere e \<in> set (scene ?t')"
    using E(3) ne(2) ne(1) osph by (rule props(2))
  show ?thesis
  proof (rule wf_update[OF wf, where k = keepWord and e = e'])
    show "wordObjects ?t' = AList.update keepWord e' (wordObjects t)"
      using ne(1) ke by (auto simp: eq Let_def e'_def update_triv)
    show "next_id t \<le> next_id ?t'" by (simp add: eq Let_def)
    show "distinct (scene ?t')" using d5 n5 by (simp add: eq Let_def)
    show "\<forall>i\<in>set (scene ?t'). i < next_id ?t'"
      using b5 set_remove1_subset[of "e_text e" "fold remove1 (glow_handles e) (scene t)"]
      by (auto simp: eq Let_def less_Suc_eq)
    show "distinct (entry_handles e')" using E(1) ne(4) by (simp add: e'_def entry_handles_def)
    show "\<forall>i\<in>set (entry_handles e'). i < next_id ?t'"
      using E(2) ne(1) by (auto simp: e'_def eq Let_def entry_handles_def less_Suc_eq)
    show "e_sphere e' \<in> set (scene ?t')" using sph by (simp add: e'_sphere)
    show "\<not> is_glow (objects ?t' (e_sphere e'))" using osph by (simp add: e'_sphere)
    show "e_text e' \<in> set (scene ?t')"
      using ne(1) t5 E(6) by (auto simp: e'_def eq Let_def)
    show "\<not> is_glow (objects ?t' (e_text e'))"
      using ne(1) ne(5) E(6) by (auto simp: e'_def eq Let_def)
    show "\<forall>g\<in>set (glow_handles e'). is_glow (objects ?t' g)"
      using ne(1) ne(2) E(7) by (auto simp: e'_def eq Let_def glow_handles_def)
    show "\<forall>k' x. k' \<noteq> keepWord \<and> map_of (wordObjects t) k' = Some x \<longrightarrow>
        (\<forall>i\<in>set (entry_handles x). objects ?t' i = objects t i) \<and>
        e_sphere x \<in> set (scene ?t') \<and> e_text x \<in> set (scene ?t') \<and>
        set (entry_handles e') \<inter> set (entry_handles x) = {}"
    proof (intro allI impI)
      fix k' x assume a: "k' \<noteq> keepWord \<and> map_of (wordObjects t) k' = Some x"
      with wf ke have dj: "set (entry_handles e) \<inter> set (entry_handles x) = {}"
        unfolding wf_scene_def by blast
      from wf a have X: "\<forall>i\<in>set (entry_handles x). i < next_id t"
        "e_sphere x \<in> set (scene t)" "e_text x \<in> set (scene t)"
        "\<not> is_glow (objects t (e_sphere x))" "\<not> is_glow (objects t (e_text x))"
        unfolding wf_scene_def by blast+
      have o: "objects ?t' i = objects t i" if "i \<in> set (entry_handles x)" for i
      proof (rule props(1))
        from that dj show "i \<noteq> e_sphere e" by (auto simp: entry_handles_glow)
        from that X(1) show "i \<noteq> next_id t" by auto
      qed
      have xin: "e_sphere x \<in> set (entry_handles x)" "e_text x \<in> set (entry_handles x)"
        by (simp_all add: entry_handles_glow)
      from dj xin have nx: "e_sphere x \<notin> set (glow_handles e)" "e_sphere x \<noteq> e_text e"
        "e_text x \<notin> set (glow_handles e)" "e_text x \<noteq> e_text e"
        by (auto simp: entry_handles_glow)
      have 1: "e_sphere x \<in> set (scene ?t')"
        using X(2) nx(1,2) by (rule props(2)) (simp add: o[OF xin(1)] X(4))
      have 2: "e_text x \<in> set (scene ?t')"
        using X(3) nx(3,4) by (rule props(2)) (simp add: o[OF xin(2)] X(5))
      from dj X(1) e'_handles have 3: "set (entry_handles e') \<inter> set (entry_handles x) = {}"
        by fastforce
      from o 1 2 3 show "(\<forall>i\<in>set (entry_handles x). objects ?t' i = objects t i) \<and>
        e_sphere x \<in> set (scene ?t') \<and> e_text x \<in> set (scene ?t') \<and>
        set (entry_handles e') \<inter> set (entry_handles x) = {}" by blast
    qed
  qed
qed

lemma wf_clearWordObjectsExcept: "wf_scene s \<Longrightarrow> wf_scene (clearWordObjectsExcept keepWord s)"
proof -
  assume wf: "wf_scene s"
  define s3 where "s3 = (if keepWord \<noteq> [] \<and> Some keepWord \<noteq> currentBaseWord (remove_others keepWord s)
             then clearAllGlowSpheres (remove_others keepWord s) else remove_others keepWord s)"
  have eq: "clearWordObjectsExcept keepWord s
      = (if keepWord \<noteq> [] \<and> has s3 keepWord then restyle_kept keepWord s3 else s3)"
    by (simp add: clearWordObjectsExcept_def Let_def s3_def)
  from wf have "wf_scene (remove_others keepWord s)" by (rule wf_remove_others)
  then have 3: "wf_scene s3" by (simp add: s3_def wf_clearAllGlowSpheres)
  have "wf_scene (restyle_kept keepWord s3)" if "has s3 keepWord"
  proof -
    from that obtain e where "map_of (wordObjects s3) keepWord = Some e"
      by (auto simp: has_def)
    with 3 show ?thesis by (rule wf_restyle_kept)
  qed
  with 3 show ?thesis by (simp add: eq)
qed

text \<open>
  Claim C10 (the sweep takes the marker's glow), as the code has it. In a well-formed
  scene, let the kept word be a non-empty word other than the marker key, with an entry,
  and let the mix marker be present with its glow cube \<open>g\<close>. After
  \<open>clearWordObjectsExcept\<close> the glow cube, which matches the glow test, is no longer in the
  scene, while the marker's entry is the same, \<open>g\<close> included, its body and label are still
  in the scene, and none of the three objects has been modified.
\<close>

theorem keep_word_sweeps_marker_glow:
  assumes wf: "wf_scene s"
    and kw: "keepWord \<noteq> []" and nm: "keepWord \<noteq> ''current_mix''"
    and ke: "map_of (wordObjects s) keepWord = Some e"
    and me: "map_of (wordObjects s) ''current_mix'' = Some m"
    and mg: "e_glow m = Some (GlowSingle g)"
  shows "let s' = clearWordObjectsExcept keepWord s
         in is_glow (objects s g)
          \<and> g \<notin> set (scene s')
          \<and> map_of (wordObjects s') ''current_mix'' = Some m
          \<and> e_sphere m \<in> set (scene s') \<and> e_text m \<in> set (scene s')
          \<and> objects s' (e_sphere m) = objects s (e_sphere m)
          \<and> objects s' (e_text m) = objects s (e_text m)
          \<and> objects s' g = objects s g"
proof -
  define s3 where "s3 = (if keepWord \<noteq> [] \<and> Some keepWord \<noteq> currentBaseWord (remove_others keepWord s)
                then clearAllGlowSpheres (remove_others keepWord s) else remove_others keepWord s)"
  have e3: "objects s3 = objects s" "next_id s3 = next_id s" "map_of (wordObjects s3) keepWord = Some e"
    using pre_restyle[OF wf ke, of keepWord] unfolding s3_def by simp_all
  have m3: "map_of (wordObjects s3) ''current_mix'' = Some m"
    "e_sphere m \<in> set (scene s3)" "e_text m \<in> set (scene s3)"
    using pre_restyle[OF wf me, of keepWord] unfolding s3_def by simp_all
  have s': "clearWordObjectsExcept keepWord s = restyle_kept keepWord s3"
    using kw e3(3) by (simp add: clearWordObjectsExcept_def Let_def s3_def has_def)
  note props = restyle_kept_props[OF e3(3)]
  from mg have gm: "glow_handles m = [g]" by (simp add: glow_handles_def)
  from wf me have hm: "\<forall>i \<in> set (entry_handles m). i < next_id s"
    "\<not> is_glow (objects s (e_sphere m))" "\<not> is_glow (objects s (e_text m))"
    "\<forall>g \<in> set (glow_handles m). is_glow (objects s g)"
    unfolding wf_scene_def by blast+
  from wf me ke nm have "set (entry_handles m) \<inter> set (entry_handles e) = {}"
    unfolding wf_scene_def by blast
  then have dj: "g \<noteq> e_sphere e" "e_sphere m \<noteq> e_sphere e" "e_text m \<noteq> e_sphere e"
    "e_sphere m \<noteq> e_text e" "e_text m \<noteq> e_text e"
    "e_sphere m \<notin> set (glow_handles e)" "e_text m \<notin> set (glow_handles e)"
    by (auto simp: entry_handles_glow gm)
  from hm(1) have lt: "g \<noteq> next_id s3" "e_sphere m \<noteq> next_id s3" "e_text m \<noteq> next_id s3"
    by (auto simp: entry_handles_glow gm e3(2))
  have og: "objects (restyle_kept keepWord s3) g = objects s g"
    using props(1)[OF dj(1) lt(1)] by (simp add: e3(1))
  have os: "objects (restyle_kept keepWord s3) (e_sphere m) = objects s (e_sphere m)"
    using props(1)[OF dj(2) lt(2)] by (simp add: e3(1))
  have ot: "objects (restyle_kept keepWord s3) (e_text m) = objects s (e_text m)"
    using props(1)[OF dj(3) lt(3)] by (simp add: e3(1))
  from hm(4) have ig: "is_glow (objects s g)" by (simp add: gm)
  then have gone: "g \<notin> set (scene (restyle_kept keepWord s3))"
    using restyle_kept_no_glow[OF e3(3), of g] og by simp
  have mix: "map_of (wordObjects (restyle_kept keepWord s3)) ''current_mix'' = Some m"
    using props(3)[of "''current_mix''"] nm m3(1) by simp
  have body: "e_sphere m \<in> set (scene (restyle_kept keepWord s3))"
    using props(2)[OF m3(2) dj(6) dj(4)] hm(2) os by simp
  have label: "e_text m \<in> set (scene (restyle_kept keepWord s3))"
    using props(2)[OF m3(3) dj(7) dj(5)] hm(3) ot by simp
  from ig gone mix body label os ot og show ?thesis
    unfolding s' Let_def by simp
qed

text \<open>A scene with the anchor, a neighbour and the mix marker, whose glow cube (handle 13) is
  a box of opacity 0.3; the neighbour is kept.\<close>

theorem keep_word_sweeps_marker_glow_witness:
  "wf_scene mix_scene
   \<and> map_of (wordObjects mix_scene) ''current_mix'' = Some mix_entry
   \<and> e_glow mix_entry = Some (GlowSingle 13)
   \<and> geometry (objects mix_scene 13) = Some (BoxGeometry (1 / 4))
   \<and> map_option opacity (mat (objects mix_scene 13)) = Some (3 / 10)
   \<and> 13 \<in> set (scene mix_scene)
   \<and> 13 \<notin> set (scene (clearWordObjectsExcept ''queen'' mix_scene))
   \<and> map_of (wordObjects (clearWordObjectsExcept ''queen'' mix_scene)) ''current_mix'' = Some mix_entry
   \<and> 12 \<in> set (scene (clearWordObjectsExcept ''queen'' mix_scene))
   \<and> 14 \<in> set (scene (clearWordObjectsExcept ''queen'' mix_scene))"
proof -
  let ?q = "\<lparr>e_sphere = 8, e_text = 11, e_point = mk_point ''queen'' 1 0 0 False False True,
                   e_glow = Some (GlowPair 9 10)\<rparr>"
  have kw: "''queen'' \<noteq> []" "''queen'' \<noteq> ''current_mix''" by simp_all
  have ke: "map_of (wordObjects mix_scene) ''queen'' = Some ?q" by (simp add: mix_scene_fields)
  have me: "map_of (wordObjects mix_scene) ''current_mix'' = Some mix_entry"
    by (simp add: mix_scene_fields)
  have mg: "e_glow mix_entry = Some (GlowSingle 13)" by (simp add: mix_entry_def)
  have h: "e_sphere mix_entry = 12" "e_text mix_entry = 14" by (simp_all add: mix_entry_def)
  from keep_word_sweeps_marker_glow[OF wf_mix_scene kw ke me mg] wf_mix_scene me mg mix_scene_cube(1,2) h
  show ?thesis unfolding Let_def by (simp add: mix_scene_fields)
qed

text \<open>The claim as stated fails when the kept word is the marker key itself: the marker is
  restyled as the base word, its label (handle 14) is replaced by a new one and its stored
  glow handle becomes null.\<close>

theorem keep_marker_restyles_marker:
  "map_of (wordObjects mix_scene) ''current_mix'' = Some mix_entry
   \<and> e_text mix_entry = 14 \<and> e_glow mix_entry = Some (GlowSingle 13)
   \<and> 14 \<in> set (scene mix_scene)
   \<and> scene (clearWordObjectsExcept ''current_mix'' mix_scene) = [0, 1, 2, 3, 4, 5, 12, 15]
   \<and> map_of (wordObjects (clearWordObjectsExcept ''current_mix'' mix_scene)) ''current_mix''
       = Some \<lparr>e_sphere = 12, e_text = 15, e_point = mk_point ''mix'' 2 0 0 False True False,
               e_glow = None\<rparr>"
proof -
  define s3 where "s3 = mix_scene\<lparr>wordObjects := [(''current_mix'', mix_entry)],
                                  scene := [0, 1, 2, 3, 4, 5, 12, 14]\<rparr>"
  have 1: "clearWordObjectsExcept ''current_mix'' mix_scene = restyle_kept ''current_mix'' s3"
    by (simp add: clearWordObjectsExcept_def Let_def remove_others_eq clearAllGlowSpheres_eq
        mix_scene_fields mix_scene_base mix_scene_glow has_def entry_handles_def king_entry_def
        mix_entry_def s3_def)
  have e: "map_of (wordObjects s3) ''current_mix'' = Some mix_entry" by (simp add: s3_def)
  have 2: "scene (restyle_kept ''current_mix'' s3) = [0, 1, 2, 3, 4, 5, 12, 15]"
    "map_of (wordObjects (restyle_kept ''current_mix'' s3)) ''current_mix''
       = Some \<lparr>e_sphere = 12, e_text = 15, e_point = mk_point ''mix'' 2 0 0 False True False,
               e_glow = None\<rparr>"
    unfolding restyle_kept_eq[OF e]
    by (simp_all add: Let_def s3_def mix_scene_fields mix_scene_cube
        mix_scene_glow glow_handles_def mix_entry_def)
  show ?thesis
    unfolding 1 using 2 by (simp add: mix_scene_fields mix_entry_def)
qed

end
